theory Spec2Isabelle
  imports Main "HOL-Library.Sublist"
begin

section \<open>Python values used by \<open>src/agents/weather_agent.py\<close>\<close>

text \<open>
  A Python \<open>str\<close> is a sequence of Unicode code points; \<open>len\<close> and slicing count code
  points. A code point is a natural number here, and \<open>str\<close> turns an ASCII literal of the
  source into that representation.
\<close>

type_synonym pystr = "nat list"

definition str :: "string \<Rightarrow> pystr" where
  "str cs = map of_char cs"

text \<open>
  The exceptions that can arise in the module. \<open>JSONDecodeError\<close> is what \<open>json.loads\<close>
  raises on malformed text, \<open>RecursionError\<close> what it raises on text nested deeper than
  the interpreter's recursion limit, \<open>TypeError\<close> what \<open>StructuredWeather(**x)\<close> raises
  when \<open>x\<close> is not a mapping, \<open>ValidationError\<close> what pydantic raises, with one entry
  per violation (its location and its kind), \<open>UnicodeEncodeError\<close> what \<open>print\<close> raises
  on text the output stream cannot encode. \<open>PyException\<close> is a plain \<open>Exception(msg)\<close>;
  \<open>OtherException\<close> stands for any further subclass of \<open>Exception\<close> a library may raise.
\<close>

datatype loc_item = Field pystr | Index nat

datatype verr_type =
  missing | int_type | int_parsing | int_from_float | string_type | list_type | model_type

type_synonym verr = "loc_item list \<times> verr_type"

datatype exn =
  IndexError
  | ValueError
  | JSONDecodeError pystr
  | RecursionError
  | TypeError
  | ValidationError "verr list"
  | UnicodeEncodeError
  | PyException pystr
  | OtherException pystr

subsection \<open>String operations\<close>

text \<open>\<open>str.isspace\<close> for one code point: the characters \<open>str.strip()\<close> removes.\<close>

definition isspace :: "nat \<Rightarrow> bool" where
  "isspace c \<longleftrightarrow>
     (9 \<le> c \<and> c \<le> 13) \<or> (28 \<le> c \<and> c \<le> 32) \<or> c = 133 \<or> c = 160 \<or> c = 5760
     \<or> (8192 \<le> c \<and> c \<le> 8202) \<or> c = 8232 \<or> c = 8233 \<or> c = 8239 \<or> c = 8287
     \<or> c = 12288"

text \<open>\<open>s.strip()\<close>: leading and trailing whitespace removed.\<close>

definition strip :: "pystr \<Rightarrow> pystr" where
  "strip s = rev (dropWhile isspace (rev (dropWhile isspace s)))"

text \<open>
  The leftmost occurrence of \<open>sep\<close> in \<open>s\<close>: the text before it and the text after it.
  This is the search that both \<open>sep in s\<close> and \<open>s.split(sep)\<close> perform.
\<close>

fun find_first :: "pystr \<Rightarrow> pystr \<Rightarrow> (pystr \<times> pystr) option" where
  "find_first sep [] = (if sep = [] then Some ([], []) else None)"
| "find_first sep (c # cs) =
     (if prefix sep (c # cs) then Some ([], drop (length sep) (c # cs))
      else map_option (\<lambda>(pre, post). (c # pre, post)) (find_first sep cs))"

text \<open>\<open>sub in s\<close> for strings.\<close>

definition contains :: "pystr \<Rightarrow> pystr \<Rightarrow> bool" where
  "contains sub s = (case find_first sub s of None \<Rightarrow> False | Some _ \<Rightarrow> True)"

text \<open>
  \<open>s.split(sep)\<close> for a non-empty separator: cut at each occurrence, left to right,
  occurrences not overlapping. Python raises \<open>ValueError\<close> for an empty separator.
\<close>

function split_nonempty :: "pystr \<Rightarrow> pystr \<Rightarrow> pystr list" where
  "split_nonempty sep s =
     (if sep = [] then [s]
      else case find_first sep s of
             None \<Rightarrow> [s]
           | Some (pre, post) \<Rightarrow> pre # split_nonempty sep post)"
  by pat_completeness auto
termination
proof (relation "measure (\<lambda>(sep, s). length s)")
  show "wf (measure (\<lambda>(sep, s). length s))" by simp
next
  fix sep s :: pystr and x2 pre post
  assume ne: "sep \<noteq> []" and f: "find_first sep s = Some x2" and x2: "(pre, post) = x2"
  have "find_first sep t = Some (p, post) \<Longrightarrow> length post < length t" for t p
  proof (induction t arbitrary: p)
    case Nil
    with ne show ?case by simp
  next
    case (Cons c cs)
    show ?case
    proof (cases "prefix sep (c # cs)")
      case True
      with Cons.prems have "post = drop (length sep) (c # cs)" by auto
      with ne show ?thesis by (cases sep) simp_all
    next
      case False
      with Cons.prems obtain p' where "find_first sep cs = Some (p', post)" by auto
      with Cons.IH have "length post < length cs" by blast
      then show ?thesis by simp
    qed
  qed
  with f x2 show "((sep, post), (sep, s)) \<in> measure (\<lambda>(sep, s). length s)" by auto
qed

declare split_nonempty.simps [simp del]

definition split_py :: "pystr \<Rightarrow> pystr \<Rightarrow> exn + pystr list" where
  "split_py sep s = (if sep = [] then Inl ValueError else Inr (split_nonempty sep s))"

text \<open>\<open>xs[i]\<close> for a non-negative index: \<open>IndexError\<close> out of range.\<close>

definition getitem :: "'a list \<Rightarrow> nat \<Rightarrow> exn + 'a" where
  "getitem xs i = (if i < length xs then Inr (xs ! i) else Inl IndexError)"

text \<open>\<open>sep.join(xs)\<close>.\<close>

fun join :: "pystr \<Rightarrow> pystr list \<Rightarrow> pystr" where
  "join sep [] = []"
| "join sep [x] = x"
| "join sep (x # y # ys) = x @ sep @ join sep (y # ys)"

subsection \<open>\<open>print\<close>\<close>

text \<open>
  \<open>print(s)\<close> writes to standard output, which is taken to be an open UTF-8 text stream
  with the strict error handler: Python's default in a UTF-8 locale, and the encoding the
  module's own messages need. UTF-8 encodes every code point except the surrogates
  \<open>U+D800\<close> to \<open>U+DFFF\<close>, on which \<open>print\<close> raises \<open>UnicodeEncodeError\<close>.
\<close>

definition utf8_encodable :: "pystr \<Rightarrow> bool" where
  "utf8_encodable s = list_all (\<lambda>c. c < 55296 \<or> 57343 < c) s"

definition print_py :: "pystr \<Rightarrow> exn + unit" where
  "print_py s = (if utf8_encodable s then Inr () else Inl UnicodeEncodeError)"

section \<open>Fence stripping (lines 193 to 199 of \<open>WeatherAgent.stream\<close>)\<close>

text \<open>
  \<open>
  if "```json" in content_str:
      content_str = content_str.split("```json")[1].split("```")[0].strip()
  elif "```" in content_str:
      content_str = content_str.split("```")[1].split("```")[0].strip()
  \<close>
  The statements stand outside the \<open>try\<close> block, so an exception of theirs would leave
  the generator; the result is therefore a sum.
\<close>

definition fence_json :: pystr where
  "fence_json = str ''```json''"

definition fence :: pystr where
  "fence = str ''```''"

definition between :: "pystr \<Rightarrow> pystr \<Rightarrow> exn + pystr" where
  "between opening s =
     (case split_py opening s of
        Inl e \<Rightarrow> Inl e
      | Inr xs \<Rightarrow>
          (case getitem xs 1 of
             Inl e \<Rightarrow> Inl e
           | Inr a \<Rightarrow>
               (case split_py fence a of
                  Inl e \<Rightarrow> Inl e
                | Inr ys \<Rightarrow>
                    (case getitem ys 0 of
                       Inl e \<Rightarrow> Inl e
                     | Inr b \<Rightarrow> Inr (strip b)))))"

definition fence_strip :: "pystr \<Rightarrow> exn + pystr" where
  "fence_strip content_str =
     (if contains fence_json content_str then between fence_json content_str
      else if contains fence content_str then between fence content_str
      else Inr content_str)"

text \<open>The candidate text handed to the JSON decoder, from the raw response text.\<close>

definition candidate :: "pystr \<Rightarrow> exn + pystr" where
  "candidate response_text = fence_strip (strip response_text)"

section \<open>JSON values and the external collaborators\<close>

text \<open>
  What \<open>json.loads\<close> returns: \<open>None\<close>, \<open>bool\<close>, \<open>int\<close> (unbounded), \<open>float\<close>, \<open>str\<close>,
  \<open>list\<close> and \<open>dict\<close>. A \<open>dict\<close> is an association list in insertion order; Python
  dictionaries have distinct keys and \<open>map_of\<close> is the lookup. A finite float is
  \<open>m * 2 ^ e\<close>; no arithmetic on floats is needed.
\<close>

datatype pyfloat = Dyadic int int | NaN | PosInf | NegInf

datatype json =
  JNull
  | JBool bool
  | JInt int
  | JFloat pyfloat
  | JStr pystr
  | JArr "json list"
  | JObj "(pystr \<times> json) list"

text \<open>
  The library functions the module calls but does not define are parameters of the model:
  \<^item> \<open>loads\<close>: \<open>json.loads\<close>, raising or returning a value;
  \<^item> \<open>dumps\<close>: \<open>json.dumps(obj, indent=...)\<close>, with \<open>None\<close> for the default indent;
  \<^item> \<open>lax_int\<close>: pydantic's conversion of a \<open>bool\<close>, \<open>float\<close> or \<open>str\<close> input to an
    \<open>int\<close> field (lax mode), failing with the kind of the violation;
  \<^item> \<open>exc_str\<close>: \<open>str(e)\<close> of an exception;
  \<^item> \<open>run_async\<close>: the events the ADK runner produces for a query and a session id.
\<close>

text \<open>
  An ADK event as the module reads it: \<open>event.is_final_response()\<close>, \<open>event.content\<close>
  (possibly \<open>None\<close>), \<open>event.content.parts\<close> (possibly \<open>None\<close> or empty) and \<open>p.text\<close>
  of a part (possibly \<open>None\<close> or empty).
\<close>

record event_part =
  part_text :: "pystr option"

record event_content =
  parts :: "event_part list option"

record event =
  is_final_response :: bool
  content :: "event_content option"

record ext =
  loads :: "pystr \<Rightarrow> exn + json"
  dumps :: "nat option \<Rightarrow> json \<Rightarrow> pystr"
  lax_int :: "json \<Rightarrow> verr_type + int"
  exc_str :: "exn \<Rightarrow> pystr"
  run_async :: "pystr \<Rightarrow> pystr \<Rightarrow> event list"

section \<open>The pydantic models (lines 45 to 63)\<close>

record DailyWeather =
  day :: int
  date :: pystr
  condition :: pystr
  highTemp :: int
  lowTemp :: int
  precipitation :: int
  humidity :: int
  windSpeed :: int
  description :: pystr

record StructuredWeather =
  destination :: pystr
  forecast :: "DailyWeather list"
  travelAdvice :: pystr
  bestDays :: "int list"

definition DailyWeather_fields :: "pystr list" where
  "DailyWeather_fields =
     [str ''day'', str ''date'', str ''condition'', str ''highTemp'', str ''lowTemp'',
      str ''precipitation'', str ''humidity'', str ''windSpeed'', str ''description'']"

definition StructuredWeather_fields :: "pystr list" where
  "StructuredWeather_fields =
     [str ''destination'', str ''forecast'', str ''travelAdvice'', str ''bestDays'']"

subsection \<open>Validation\<close>

text \<open>
  \<open>BaseModel\<close> validation of pydantic 2 (the module calls \<open>model_dump\<close>) on Python
  input, with the default configuration, which neither class overrides:
  every declared field is required (none has a default), unknown keys are ignored
  (\<open>extra = 'ignore'\<close>), and the violations of all fields are collected into one
  \<open>ValidationError\<close>. A validator takes the location of its input and the input.
\<close>

type_synonym 'a validator = "loc_item list \<Rightarrow> json \<Rightarrow> verr list + 'a"

fun both :: "verr list + 'a \<Rightarrow> verr list + 'b \<Rightarrow> verr list + ('a \<times> 'b)" where
  "both (Inr a) (Inr b) = Inr (a, b)"
| "both (Inl e) (Inr b) = Inl e"
| "both (Inr a) (Inl e) = Inl e"
| "both (Inl e1) (Inl e2) = Inl (e1 @ e2)"

text \<open>
  An \<open>int\<close> field takes an \<open>int\<close> as it is, hands \<open>bool\<close>, \<open>float\<close> and \<open>str\<close> inputs to
  the lax conversion, and rejects \<open>None\<close>, lists and dictionaries. No range is checked.
\<close>

definition validate_int :: "ext \<Rightarrow> int validator" where
  "validate_int x loc v =
     (case v of
        JInt i \<Rightarrow> Inr i
      | JNull \<Rightarrow> Inl [(loc, int_type)]
      | JArr _ \<Rightarrow> Inl [(loc, int_type)]
      | JObj _ \<Rightarrow> Inl [(loc, int_type)]
      | _ \<Rightarrow> (case lax_int x v of Inl t \<Rightarrow> Inl [(loc, t)] | Inr i \<Rightarrow> Inr i))"

text \<open>A \<open>str\<close> field takes a \<open>str\<close> only.\<close>

definition validate_str :: "pystr validator" where
  "validate_str loc v = (case v of JStr s \<Rightarrow> Inr s | _ \<Rightarrow> Inl [(loc, string_type)])"

text \<open>A required field of a model: looked up by name in the input dictionary.\<close>

definition field :: "(pystr \<times> json) list \<Rightarrow> loc_item list \<Rightarrow> pystr \<Rightarrow> 'a validator \<Rightarrow> verr list + 'a" where
  "field kvs loc name f =
     (case map_of kvs name of
        None \<Rightarrow> Inl [(loc @ [Field name], missing)]
      | Some v \<Rightarrow> f (loc @ [Field name]) v)"

text \<open>A \<open>List[T]\<close> field: a list whose elements are validated one by one, in order.\<close>

fun validate_items :: "'a validator \<Rightarrow> loc_item list \<Rightarrow> nat \<Rightarrow> json list \<Rightarrow> verr list + 'a list" where
  "validate_items f loc i [] = Inr []"
| "validate_items f loc i (v # vs) =
     (case both (f (loc @ [Index i]) v) (validate_items f loc (Suc i) vs) of
        Inl e \<Rightarrow> Inl e
      | Inr (y, ys) \<Rightarrow> Inr (y # ys))"

definition validate_list :: "'a validator \<Rightarrow> 'a list validator" where
  "validate_list f loc v =
     (case v of JArr vs \<Rightarrow> validate_items f loc 0 vs | _ \<Rightarrow> Inl [(loc, list_type)])"

definition validate_DailyWeather :: "ext \<Rightarrow> DailyWeather validator" where
  "validate_DailyWeather x loc v =
     (case v of
        JObj kvs \<Rightarrow>
          (case both (field kvs loc (str ''day'') (validate_int x))
                (both (field kvs loc (str ''date'') validate_str)
                (both (field kvs loc (str ''condition'') validate_str)
                (both (field kvs loc (str ''highTemp'') (validate_int x))
                (both (field kvs loc (str ''lowTemp'') (validate_int x))
                (both (field kvs loc (str ''precipitation'') (validate_int x))
                (both (field kvs loc (str ''humidity'') (validate_int x))
                (both (field kvs loc (str ''windSpeed'') (validate_int x))
                      (field kvs loc (str ''description'') validate_str)))))))) of
             Inl e \<Rightarrow> Inl e
           | Inr (d, dt, c, hi, lo, p, hu, w, de) \<Rightarrow>
               Inr \<lparr>day = d, date = dt, condition = c, highTemp = hi, lowTemp = lo,
                    precipitation = p, humidity = hu, windSpeed = w, description = de\<rparr>)
      | _ \<Rightarrow> Inl [(loc, model_type)])"

definition validate_StructuredWeather :: "ext \<Rightarrow> (pystr \<times> json) list \<Rightarrow> verr list + StructuredWeather" where
  "validate_StructuredWeather x kvs =
     (case both (field kvs [] (str ''destination'') validate_str)
           (both (field kvs [] (str ''forecast'') (validate_list (validate_DailyWeather x)))
           (both (field kvs [] (str ''travelAdvice'') validate_str)
                 (field kvs [] (str ''bestDays'') (validate_list (validate_int x))))) of
        Inl e \<Rightarrow> Inl e
      | Inr (d, f, t, b) \<Rightarrow>
          Inr \<lparr>destination = d, forecast = f, travelAdvice = t, bestDays = b\<rparr>)"

text \<open>
  \<open>StructuredWeather(**structured_data)\<close>: unpacking anything but a dictionary raises
  \<open>TypeError\<close> before pydantic is reached.
\<close>

definition new_StructuredWeather :: "ext \<Rightarrow> json \<Rightarrow> exn + StructuredWeather" where
  "new_StructuredWeather x structured_data =
     (case structured_data of
        JObj kvs \<Rightarrow>
          (case validate_StructuredWeather x kvs of
             Inl errs \<Rightarrow> Inl (ValidationError errs)
           | Inr w \<Rightarrow> Inr w)
      | _ \<Rightarrow> Inl TypeError)"

subsection \<open>\<open>model_dump\<close>\<close>

definition dump_DailyWeather :: "DailyWeather \<Rightarrow> json" where
  "dump_DailyWeather d =
     JObj [(str ''day'', JInt (day d)), (str ''date'', JStr (date d)),
           (str ''condition'', JStr (condition d)), (str ''highTemp'', JInt (highTemp d)),
           (str ''lowTemp'', JInt (lowTemp d)), (str ''precipitation'', JInt (precipitation d)),
           (str ''humidity'', JInt (humidity d)), (str ''windSpeed'', JInt (windSpeed d)),
           (str ''description'', JStr (description d))]"

definition model_dump :: "StructuredWeather \<Rightarrow> json" where
  "model_dump w =
     JObj [(str ''destination'', JStr (destination w)),
           (str ''forecast'', JArr (map dump_DailyWeather (forecast w))),
           (str ''travelAdvice'', JStr (travelAdvice w)),
           (str ''bestDays'', JArr (map JInt (bestDays w)))]"

section \<open>\<open>WeatherAgent\<close>\<close>

definition get_processing_message :: pystr where
  "get_processing_message = str ''Checking weather forecasts and travel conditions...''"

text \<open>Truth value of \<open>p.text\<close>: \<open>None\<close> and the empty string are false.\<close>

definition truthy :: "pystr option \<Rightarrow> bool" where
  "truthy t = (case t of None \<Rightarrow> False | Some s \<Rightarrow> s \<noteq> [])"

text \<open>
  Lines 181 to 190. The guard tests \<open>event.content\<close>, \<open>event.content.parts\<close> (\<open>None\<close> and
  the empty list are false) and the text of the first part only; the comprehension keeps
  the parts whose text is true.
\<close>

definition response_text :: "event \<Rightarrow> pystr" where
  "response_text ev =
     (case content ev of
        None \<Rightarrow> []
      | Some c \<Rightarrow>
          (case parts c of
             None \<Rightarrow> []
           | Some [] \<Rightarrow> []
           | Some (p # ps) \<Rightarrow>
               if truthy (part_text p)
               then join [10] (map (\<lambda>q. the (part_text q)) (filter (\<lambda>q. truthy (part_text q)) (p # ps)))
               else []))"

text \<open>
  The messages printed on lines 208, 210, 211 and 218; \<open>f"{e}"\<close> is \<open>str(e)\<close>. The first
  character is \<open>U+2705\<close> in the success message and \<open>U+274C\<close> in the others.
\<close>

definition success_message :: pystr where
  "success_message = [9989] @ str '' Successfully created structured weather forecast''"

definition parsing_error_message :: "ext \<Rightarrow> exn \<Rightarrow> pystr" where
  "parsing_error_message x e = [10060] @ str '' JSON parsing error: '' @ exc_str x e"

definition content_message :: "pystr \<Rightarrow> pystr" where
  "content_message content_str = str ''Content: '' @ content_str"

definition validation_error_message :: "ext \<Rightarrow> exn \<Rightarrow> pystr" where
  "validation_error_message x e = [10060] @ str '' Validation error: '' @ exc_str x e"

text \<open>
  The dictionary literals of lines 213 to 216 and 220 to 222. The slice
  \<open>content_str[:200]\<close> is \<open>take 200\<close>: slicing does not raise.
\<close>

definition malformed_envelope :: "pystr \<Rightarrow> json" where
  "malformed_envelope content_str =
     JObj [(str ''error'', JStr (str ''Failed to generate structured weather forecast'')),
           (str ''raw_content'', JStr (take 200 content_str))]"

definition validation_envelope :: "pystr \<Rightarrow> json" where
  "validation_envelope msg = JObj [(str ''error'', JStr (str ''Validation failed: '' @ msg))]"

text \<open>
  The two \<open>except\<close> clauses of lines 209 to 222, in their order: \<open>json.JSONDecodeError\<close>
  first, any other \<open>Exception\<close> second. Each prints before it assigns \<open>final_response\<close>;
  an exception raised inside a clause is not handled by the other one and leaves the
  generator.
\<close>

definition fallback :: "ext \<Rightarrow> pystr \<Rightarrow> exn \<Rightarrow> exn + pystr" where
  "fallback x content_str e =
     (case e of
        JSONDecodeError _ \<Rightarrow>
          (case print_py (parsing_error_message x e) of
             Inl e' \<Rightarrow> Inl e'
           | Inr _ \<Rightarrow>
               (case print_py (content_message content_str) of
                  Inl e' \<Rightarrow> Inl e'
                | Inr _ \<Rightarrow> Inr (dumps x None (malformed_envelope content_str))))
      | _ \<Rightarrow>
          (case print_py (validation_error_message x e) of
             Inl e' \<Rightarrow> Inl e'
           | Inr _ \<Rightarrow> Inr (dumps x None (validation_envelope (exc_str x e)))))"

text \<open>
  The body of the \<open>try\<close> block, lines 202 to 208: decode, construct the model, serialize
  its dump with \<open>indent=2\<close>, print the success message. \<open>Inl\<close> is the exception raised.
\<close>

definition try_body :: "ext \<Rightarrow> pystr \<Rightarrow> exn + pystr" where
  "try_body x content_str =
     (case loads x content_str of
        Inl e \<Rightarrow> Inl e
      | Inr structured_data \<Rightarrow>
          (case new_StructuredWeather x structured_data of
             Inl e \<Rightarrow> Inl e
           | Inr validated_weather \<Rightarrow>
               (let final_response = dumps x (Some 2) (model_dump validated_weather)
                in case print_py success_message of
                     Inl e \<Rightarrow> Inl e
                   | Inr _ \<Rightarrow> Inr final_response)))"

text \<open>
  The \<open>try\<close> statement of lines 201 to 222 for a given candidate text: the value of
  \<open>final_response\<close>, or the exception that leaves the statement.
\<close>

definition parse_and_validate :: "ext \<Rightarrow> pystr \<Rightarrow> exn + pystr" where
  "parse_and_validate x content_str =
     (case try_body x content_str of
        Inl e \<Rightarrow> fallback x content_str e
      | Inr final_response \<Rightarrow> Inr final_response)"

text \<open>\<open>final_response\<close> for a final event (lines 181 to 222); \<open>Inl\<close> is an exception that escapes.\<close>

definition final_response :: "ext \<Rightarrow> event \<Rightarrow> exn + pystr" where
  "final_response x ev =
     (case candidate (response_text ev) of
        Inl e \<Rightarrow> Inl e
      | Inr content_str \<Rightarrow> parse_and_validate x content_str)"

text \<open>
  The dictionaries the generator yields: \<open>{'is_task_complete': True, 'content': c}\<close> and
  \<open>{'is_task_complete': False, 'updates': u}\<close>.
\<close>

datatype item = Complete pystr | Updates pystr

fun is_task_complete :: "item \<Rightarrow> bool" where
  "is_task_complete (Complete c) = True"
| "is_task_complete (Updates u) = False"

text \<open>The body of the \<open>async for\<close> loop of \<open>stream\<close> (lines 180 to 233) for one event.\<close>

definition stream_step :: "ext \<Rightarrow> event \<Rightarrow> exn + item" where
  "stream_step x ev =
     (if is_final_response ev
      then (case final_response x ev of Inl e \<Rightarrow> Inl e | Inr r \<Rightarrow> Inr (Complete r))
      else Inr (Updates get_processing_message))"

text \<open>
  The generator run to its end over the runner's events: the items yielded, and the
  exception that ended it, if any. An event yields one item unless its step raises,
  which ends the generator; the loop does not stop at a final event. The session lookup and creation of lines 153 to 171 belong to the
  ADK session service; they pass the session id on to the runner and are taken to
  return normally.
\<close>

fun stream_events :: "ext \<Rightarrow> event list \<Rightarrow> item list \<times> exn option" where
  "stream_events x [] = ([], None)"
| "stream_events x (ev # evs) =
     (case stream_step x ev of
        Inl e \<Rightarrow> ([], Some e)
      | Inr it \<Rightarrow> (case stream_events x evs of (its, r) \<Rightarrow> (it # its, r)))"

definition stream :: "ext \<Rightarrow> pystr \<Rightarrow> pystr \<Rightarrow> item list \<times> exn option" where
  "stream x query session_id = stream_events x (run_async x query session_id)"

section \<open>\<open>WeatherAgentExecutor\<close>\<close>

text \<open>
  The request context: the user's input, and the \<open>context_id\<close> attribute when the object
  has one (\<open>getattr\<close> with the default \<open>'default_session'\<close>). The event queue is the list
  of the messages enqueued so far.
\<close>

record RequestContext =
  get_user_input :: pystr
  context_id :: "pystr option"

datatype message = new_agent_text_message pystr

text \<open>
  The loop of lines 288 to 292 over the generator: items are pulled one at a time, and
  \<open>break\<close> leaves the remaining events unread. The result is \<open>final_content\<close> and the
  events never pulled, or the exception that left the generator.
\<close>

fun execute_loop :: "ext \<Rightarrow> pystr \<Rightarrow> event list \<Rightarrow> exn + (pystr \<times> event list)" where
  "execute_loop x final_content [] = Inr (final_content, [])"
| "execute_loop x final_content (ev # evs) =
     (case stream_step x ev of
        Inl e \<Rightarrow> Inl e
      | Inr (Complete c) \<Rightarrow> Inr (c, evs)
      | Inr (Updates u) \<Rightarrow> execute_loop x final_content evs)"

text \<open>\<open>getattr(context, 'context_id', 'default_session')\<close>.\<close>

definition session_id_of :: "RequestContext \<Rightarrow> pystr" where
  "session_id_of context =
     (case context_id context of None \<Rightarrow> str ''default_session'' | Some i \<Rightarrow> i)"

definition execute :: "ext \<Rightarrow> RequestContext \<Rightarrow> message list \<Rightarrow> exn + message list" where
  "execute x context event_queue =
     (let query = get_user_input context;
          session_id = session_id_of context
      in case execute_loop x [] (run_async x query session_id) of
           Inl e \<Rightarrow> Inl e
         | Inr (final_content, unread) \<Rightarrow>
             Inr (event_queue @ [new_agent_text_message final_content]))"

definition cancel :: "RequestContext \<Rightarrow> message list \<Rightarrow> exn + message list" where
  "cancel context event_queue = Inl (PyException (str ''cancel not supported''))"

section \<open>Notions of the specification\<close>

text \<open>
  ``The first marker'': \<open>m\<close> stands in \<open>s\<close> between \<open>pre\<close> and \<open>post\<close>, and at no earlier
  position of \<open>s\<close>.
\<close>

definition marker_split :: "pystr \<Rightarrow> pystr \<Rightarrow> pystr \<Rightarrow> pystr \<Rightarrow> bool" where
  "marker_split m s pre post \<longleftrightarrow>
     s = pre @ m @ post \<and> (\<forall>i < length pre. \<not> prefix m (drop i s))"

text \<open>The first element of \<open>s.split(sep)\<close>: the text up to the first separator, if any.\<close>

definition piece0 :: "pystr \<Rightarrow> pystr \<Rightarrow> pystr" where
  "piece0 sep s = (case find_first sep s of None \<Rightarrow> s | Some (a, _) \<Rightarrow> a)"

text \<open>
  ``Valid JSON matching the schema'', with the field values \<open>d\<close> and \<open>w\<close>: an object that
  has every declared key, an integer where the field is an \<open>int\<close>, a string where it is a
  \<open>str\<close>, a list where it is a \<open>List\<close>. Other keys and the order of keys are free.
\<close>

definition json_DailyWeather :: "json \<Rightarrow> DailyWeather \<Rightarrow> bool" where
  "json_DailyWeather j d =
     (case j of
        JObj kvs \<Rightarrow>
          map_of kvs (str ''day'') = Some (JInt (day d))
          \<and> map_of kvs (str ''date'') = Some (JStr (date d))
          \<and> map_of kvs (str ''condition'') = Some (JStr (condition d))
          \<and> map_of kvs (str ''highTemp'') = Some (JInt (highTemp d))
          \<and> map_of kvs (str ''lowTemp'') = Some (JInt (lowTemp d))
          \<and> map_of kvs (str ''precipitation'') = Some (JInt (precipitation d))
          \<and> map_of kvs (str ''humidity'') = Some (JInt (humidity d))
          \<and> map_of kvs (str ''windSpeed'') = Some (JInt (windSpeed d))
          \<and> map_of kvs (str ''description'') = Some (JStr (description d))
      | _ \<Rightarrow> False)"

definition matches_schema :: "json \<Rightarrow> StructuredWeather \<Rightarrow> bool" where
  "matches_schema j w =
     (case j of
        JObj kvs \<Rightarrow>
          map_of kvs (str ''destination'') = Some (JStr (destination w))
          \<and> (case map_of kvs (str ''forecast'') of
                Some (JArr ds) \<Rightarrow> list_all2 json_DailyWeather ds (forecast w)
              | _ \<Rightarrow> False)
          \<and> map_of kvs (str ''travelAdvice'') = Some (JStr (travelAdvice w))
          \<and> map_of kvs (str ''bestDays'') = Some (JArr (map JInt (bestDays w)))
      | _ \<Rightarrow> False)"

text \<open>
  ``Fails schema validation'': the value is not an object, or a required field is
  missing, or a field has a value of the wrong kind that validation does not convert,
  or an element of \<open>forecast\<close> fails as a \<open>DailyWeather\<close>. For a \<open>str\<close> field every value
  but a string is of the wrong kind. For an \<open>int\<close> field \<open>null\<close>, lists and objects are,
  and so is a boolean, float or string that the lax conversion refuses; one that it
  converts is accepted.
\<close>

definition str_rejected :: "json \<Rightarrow> bool" where
  "str_rejected v = (case v of JStr s \<Rightarrow> False | _ \<Rightarrow> True)"

definition int_rejected :: "ext \<Rightarrow> json \<Rightarrow> bool" where
  "int_rejected x v =
     (case v of
        JInt i \<Rightarrow> False
      | JNull \<Rightarrow> True
      | JArr _ \<Rightarrow> True
      | JObj _ \<Rightarrow> True
      | _ \<Rightarrow> (case lax_int x v of Inl _ \<Rightarrow> True | Inr _ \<Rightarrow> False))"

definition field_rejected :: "(pystr \<times> json) list \<Rightarrow> pystr \<Rightarrow> (json \<Rightarrow> bool) \<Rightarrow> bool" where
  "field_rejected kvs name bad = (case map_of kvs name of None \<Rightarrow> True | Some v \<Rightarrow> bad v)"

definition list_rejected :: "(json \<Rightarrow> bool) \<Rightarrow> json \<Rightarrow> bool" where
  "list_rejected bad v = (case v of JArr vs \<Rightarrow> list_ex bad vs | _ \<Rightarrow> True)"

definition DailyWeather_rejected :: "ext \<Rightarrow> json \<Rightarrow> bool" where
  "DailyWeather_rejected x v =
     (case v of
        JObj kvs \<Rightarrow>
          field_rejected kvs (str ''day'') (int_rejected x)
          \<or> field_rejected kvs (str ''date'') str_rejected
          \<or> field_rejected kvs (str ''condition'') str_rejected
          \<or> field_rejected kvs (str ''highTemp'') (int_rejected x)
          \<or> field_rejected kvs (str ''lowTemp'') (int_rejected x)
          \<or> field_rejected kvs (str ''precipitation'') (int_rejected x)
          \<or> field_rejected kvs (str ''humidity'') (int_rejected x)
          \<or> field_rejected kvs (str ''windSpeed'') (int_rejected x)
          \<or> field_rejected kvs (str ''description'') str_rejected
      | _ \<Rightarrow> True)"

definition violates_schema :: "ext \<Rightarrow> json \<Rightarrow> bool" where
  "violates_schema x j =
     (case j of
        JObj kvs \<Rightarrow>
          field_rejected kvs (str ''destination'') str_rejected
          \<or> field_rejected kvs (str ''forecast'') (list_rejected (DailyWeather_rejected x))
          \<or> field_rejected kvs (str ''travelAdvice'') str_rejected
          \<or> field_rejected kvs (str ''bestDays'') (list_rejected (int_rejected x))
      | _ \<Rightarrow> True)"

text \<open>The keys of a dictionary, in order.\<close>

definition keys :: "json \<Rightarrow> pystr list" where
  "keys j = (case j of JObj kvs \<Rightarrow> map fst kvs | _ \<Rightarrow> [])"

subsection \<open>Concrete collaborators and inputs for the examples\<close>

text \<open>
  An encoder for the examples: \<open>json.dumps\<close> with its default separators, without the
  line breaks of \<open>indent\<close> and without escapes in strings; a float is written as a
  placeholder (no example holds one).
\<close>

function show_nat :: "nat \<Rightarrow> pystr" where
  "show_nat n = (if n < 10 then [48 + n] else show_nat (n div 10) @ [48 + n mod 10])"
  by pat_completeness auto
termination
  by (relation "measure id") auto

declare show_nat.simps [simp del]

definition show_int :: "int \<Rightarrow> pystr" where
  "show_int i = (if i < 0 then [45] @ show_nat (nat (- i)) else show_nat (nat i))"

fun show_json :: "json \<Rightarrow> pystr" where
  "show_json JNull = str ''null''"
| "show_json (JBool b) = (if b then str ''true'' else str ''false'')"
| "show_json (JInt i) = show_int i"
| "show_json (JFloat f) = str ''<float>''"
| "show_json (JStr s) = [34] @ s @ [34]"
| "show_json (JArr vs) = [91] @ join (str '', '') (map show_json vs) @ [93]"
| "show_json (JObj kvs) =
     [123] @ join (str '', '')
       (map (\<lambda>kv. [34] @ fst kv @ [34] @ str '': '' @ show_json (snd kv)) kvs) @ [125]"

text \<open>
  A decoder given by a table from texts to values, raising \<open>JSONDecodeError\<close> on every
  other text, the encoder above, a lax conversion that accepts booleans only (\<open>True\<close> is
  1, \<open>False\<close> is 0), messages without the offending input, and a runner that replays a
  fixed event list.
\<close>

definition table_ext :: "(pystr \<times> json) list \<Rightarrow> event list \<Rightarrow> ext" where
  "table_ext tbl evs =
     \<lparr>loads = (\<lambda>s. case map_of tbl s of None \<Rightarrow> Inl (JSONDecodeError s) | Some j \<Rightarrow> Inr j),
      dumps = (\<lambda>indent j. show_json j),
      lax_int = (\<lambda>v. case v of JBool b \<Rightarrow> Inr (if b then 1 else 0) | _ \<Rightarrow> Inl int_parsing),
      exc_str = (\<lambda>e. case e of
                        ValidationError errs \<Rightarrow> str ''validation error''
                      | JSONDecodeError s \<Rightarrow> str ''Expecting value''
                      | RecursionError \<Rightarrow> str ''maximum recursion depth exceeded''
                      | _ \<Rightarrow> str ''error''),
      run_async = (\<lambda>query session_id. evs)\<rparr>"

text \<open>
  A text of 100000 opening brackets, on which the decoder exceeds the recursion limit, and
  collaborators whose decoder does so.
\<close>

definition deep_text :: pystr where
  "deep_text = replicate 100000 91"

definition deep_ext :: ext where
  "deep_ext =
     (table_ext [] [])\<lparr>loads :=
        (\<lambda>s. if s = deep_text then Inl RecursionError else Inl (JSONDecodeError s))\<rparr>"

text \<open>The text of one code point, the lone surrogate \<open>U+D83D\<close>.\<close>

definition surrogate_text :: pystr where
  "surrogate_text = [55357]"

definition text_event :: "bool \<Rightarrow> pystr option list \<Rightarrow> event" where
  "text_event final ts =
     \<lparr>is_final_response = final,
      content = Some \<lparr>parts = Some (map (\<lambda>t. \<lparr>part_text = t\<rparr>) ts)\<rparr>\<rparr>"

definition tokyo_day :: DailyWeather where
  "tokyo_day =
     \<lparr>day = 1, date = str ''Dec 15'', condition = str ''Sunny'', highTemp = 75, lowTemp = 60,
      precipitation = 10, humidity = 45, windSpeed = 8, description = str ''Clear''\<rparr>"

definition tokyo :: StructuredWeather where
  "tokyo =
     \<lparr>destination = str ''Tokyo'', forecast = [tokyo_day],
      travelAdvice = str ''Pack light'', bestDays = [1]\<rparr>"

definition tokyo_pairs :: "(pystr \<times> json) list" where
  "tokyo_pairs =
     [(str ''destination'', JStr (str ''Tokyo'')),
      (str ''forecast'',
       JArr [JObj [(str ''day'', JInt 1), (str ''date'', JStr (str ''Dec 15'')),
                   (str ''condition'', JStr (str ''Sunny'')), (str ''highTemp'', JInt 75),
                   (str ''lowTemp'', JInt 60), (str ''precipitation'', JInt 10),
                   (str ''humidity'', JInt 45), (str ''windSpeed'', JInt 8),
                   (str ''description'', JStr (str ''Clear''))]]),
      (str ''travelAdvice'', JStr (str ''Pack light'')),
      (str ''bestDays'', JArr [JInt 1])]"

definition tokyo_json :: json where
  "tokyo_json = JObj tokyo_pairs"

text \<open>The same object with two keys the schema does not declare.\<close>

definition tokyo_extra_pairs :: "(pystr \<times> json) list" where
  "tokyo_extra_pairs =
     (str ''timezone'', JStr (str ''JST'')) # tokyo_pairs @ [(str ''source'', JNull)]"

definition tokyo_extra_text :: pystr where
  "tokyo_extra_text = str ''{\"timezone\":\"JST\",\"destination\":\"Tokyo\",\"forecast\":[{\"day\":1,\"date\":\"Dec 15\",\"condition\":\"Sunny\",\"highTemp\":75,\"lowTemp\":60,\"precipitation\":10,\"humidity\":45,\"windSpeed\":8,\"description\":\"Clear\"}],\"travelAdvice\":\"Pack light\",\"bestDays\":[1],\"source\":null}''"

definition tokyo_text :: pystr where
  "tokyo_text = str ''{\"destination\":\"Tokyo\",\"forecast\":[{\"day\":1,\"date\":\"Dec 15\",\"condition\":\"Sunny\",\"highTemp\":75,\"lowTemp\":60,\"precipitation\":10,\"humidity\":45,\"windSpeed\":8,\"description\":\"Clear\"}],\"travelAdvice\":\"Pack light\",\"bestDays\":[1]}''"

definition no_forecast_json :: json where
  "no_forecast_json =
     JObj [(str ''destination'', JStr (str ''Tokyo'')),
           (str ''travelAdvice'', JStr (str ''Pack light'')),
           (str ''bestDays'', JArr [JInt 1])]"

definition no_forecast_text :: pystr where
  "no_forecast_text = str ''{\"destination\":\"Tokyo\",\"travelAdvice\":\"Pack light\",\"bestDays\":[1]}''"

text \<open>The Tokyo object with the boolean \<open>true\<close> as \<open>highTemp\<close>, and what validation makes of it.\<close>

definition bool_temp_json :: json where
  "bool_temp_json =
     JObj [(str ''destination'', JStr (str ''Tokyo'')),
           (str ''forecast'',
            JArr [JObj [(str ''day'', JInt 1), (str ''date'', JStr (str ''Dec 15'')),
                        (str ''condition'', JStr (str ''Sunny'')), (str ''highTemp'', JBool True),
                        (str ''lowTemp'', JInt 60), (str ''precipitation'', JInt 10),
                        (str ''humidity'', JInt 45), (str ''windSpeed'', JInt 8),
                        (str ''description'', JStr (str ''Clear''))]]),
           (str ''travelAdvice'', JStr (str ''Pack light'')),
           (str ''bestDays'', JArr [JInt 1])]"

definition bool_temp_text :: pystr where
  "bool_temp_text = str ''{\"destination\":\"Tokyo\",\"forecast\":[{\"day\":1,\"date\":\"Dec 15\",\"condition\":\"Sunny\",\"highTemp\":true,\"lowTemp\":60,\"precipitation\":10,\"humidity\":45,\"windSpeed\":8,\"description\":\"Clear\"}],\"travelAdvice\":\"Pack light\",\"bestDays\":[1]}''"

definition bool_temp_weather :: StructuredWeather where
  "bool_temp_weather = tokyo\<lparr>forecast := [tokyo_day\<lparr>highTemp := 1\<rparr>]\<rparr>"

text \<open>
  A well-formed input whose \<open>bestDays\<close> names day 7 twice while \<open>forecast\<close> has day 1 only,
  with a precipitation of 250 and a humidity of -5.
\<close>

definition unchecked_day :: json where
  "unchecked_day =
     JObj [(str ''day'', JInt 1), (str ''date'', JStr (str ''Dec 15'')),
           (str ''condition'', JStr (str ''Sunny'')), (str ''highTemp'', JInt 75),
           (str ''lowTemp'', JInt 60), (str ''precipitation'', JInt 250),
           (str ''humidity'', JInt (- 5)), (str ''windSpeed'', JInt 8),
           (str ''description'', JStr (str ''Clear''))]"

definition unchecked_input :: json where
  "unchecked_input =
     JObj [(str ''destination'', JStr (str ''Tokyo'')),
           (str ''forecast'', JArr [unchecked_day]),
           (str ''travelAdvice'', JStr (str ''Pack light'')),
           (str ''bestDays'', JArr [JInt 7, JInt 7])]"

definition unchecked_weather :: StructuredWeather where
  "unchecked_weather =
     \<lparr>destination = str ''Tokyo'',
      forecast = [tokyo_day\<lparr>precipitation := 250, humidity := - 5\<rparr>],
      travelAdvice = str ''Pack light'', bestDays = [7, 7]\<rparr>"

section \<open>Properties\<close>

subsection \<open>Searching and splitting\<close>

lemma find_first_Some_iff:
  "find_first sep s = Some (pre, post) \<longleftrightarrow> marker_split sep s pre post"
proof (induction s arbitrary: pre)
  case Nil
  then show ?case by (auto simp: marker_split_def)
next
  case (Cons c cs)
  show ?case
  proof (cases "prefix sep (c # cs)")
    case True
    then have eq: "c # cs = sep @ drop (length sep) (c # cs)"
      by (metis append_eq_conv_conj prefixE)
    show ?thesis
    proof
      assume "find_first sep (c # cs) = Some (pre, post)"
      with True have "pre = []" "post = drop (length sep) (c # cs)" by auto
      with eq show "marker_split sep (c # cs) pre post" by (simp add: marker_split_def)
    next
      assume m: "marker_split sep (c # cs) pre post"
      have "pre = []"
      proof (rule ccontr)
        assume "pre \<noteq> []"
        then have "0 < length pre" by simp
        with m have "\<not> prefix sep (drop 0 (c # cs))" unfolding marker_split_def by blast
        with True show False by simp
      qed
      with m have "c # cs = sep @ post" by (simp add: marker_split_def)
      then have "post = drop (length sep) (c # cs)" by (metis append_eq_conv_conj)
      with True \<open>pre = []\<close> show "find_first sep (c # cs) = Some (pre, post)" by simp
    qed
  next
    case False
    show ?thesis
    proof
      assume "find_first sep (c # cs) = Some (pre, post)"
      with False obtain pre' where f: "find_first sep cs = Some (pre', post)" and p: "pre = c # pre'"
        by auto
      from f Cons.IH have m: "marker_split sep cs pre' post" by simp
      have "\<not> prefix sep (drop i (c # cs))" if "i < length pre" for i
      proof (cases i)
        case 0 with False show ?thesis by simp
      next
        case (Suc j)
        with that p have "j < length pre'" by simp
        with m have "\<not> prefix sep (drop j cs)" unfolding marker_split_def by blast
        with Suc show ?thesis by simp
      qed
      with m p show "marker_split sep (c # cs) pre post" by (simp add: marker_split_def)
    next
      assume m: "marker_split sep (c # cs) pre post"
      have "pre \<noteq> []"
      proof
        assume "pre = []"
        with m have "c # cs = sep @ post" by (simp add: marker_split_def)
        then have "prefix sep (c # cs)" by (metis prefixI)
        with False show False by simp
      qed
      then obtain pre' where p: "pre = c # pre'" using m
        by (cases pre) (auto simp: marker_split_def)
      have "\<not> prefix sep (drop j cs)" if "j < length pre'" for j
      proof -
        from that p have "Suc j < length pre" by simp
        with m have "\<not> prefix sep (drop (Suc j) (c # cs))" unfolding marker_split_def by blast
        then show ?thesis by simp
      qed
      with m p have "marker_split sep cs pre' post" by (simp add: marker_split_def)
      with Cons.IH have "find_first sep cs = Some (pre', post)" by simp
      with False p show "find_first sep (c # cs) = Some (pre, post)" by simp
    qed
  qed
qed

lemma find_first_None_iff:
  "find_first sep s = None \<longleftrightarrow> (\<forall>i \<le> length s. \<not> prefix sep (drop i s))"
proof (induction s)
  case Nil
  then show ?case by auto
next
  case (Cons c cs)
  show ?case
  proof (cases "prefix sep (c # cs)")
    case True
    then show ?thesis by (auto intro: exI[of _ 0])
  next
    case False
    have "(\<forall>i \<le> length (c # cs). \<not> prefix sep (drop i (c # cs))) \<longleftrightarrow> (\<forall>i \<le> length cs. \<not> prefix sep (drop i cs))"
      (is "?L \<longleftrightarrow> ?R")
    proof
      assume ?L
      show ?R
      proof (intro allI impI)
        fix i assume "i \<le> length cs"
        with \<open>?L\<close> have "\<not> prefix sep (drop (Suc i) (c # cs))" by (metis Suc_le_mono length_Cons)
        then show "\<not> prefix sep (drop i cs)" by simp
      qed
    next
      assume ?R
      show ?L
      proof (intro allI impI)
        fix i assume "i \<le> length (c # cs)"
        show "\<not> prefix sep (drop i (c # cs))"
        proof (cases i)
          case 0 with False show ?thesis by simp
        next
          case (Suc j)
          with \<open>i \<le> length (c # cs)\<close> \<open>?R\<close> show ?thesis by simp
        qed
      qed
    qed
    with False Cons.IH show ?thesis by simp
  qed
qed

lemma split_nonempty_0:
  "sep \<noteq> [] \<Longrightarrow> getitem (split_nonempty sep s) 0 = Inr (piece0 sep s)"
  by (subst split_nonempty.simps) (simp add: getitem_def piece0_def split: option.splits)

lemma split_nonempty_1:
  "sep \<noteq> [] \<Longrightarrow> find_first sep s = Some (pre, rest) \<Longrightarrow>
   getitem (split_nonempty sep s) (Suc 0) = Inr (piece0 sep rest)"
  using split_nonempty_0 [of sep rest]
  by (subst split_nonempty.simps) (auto simp add: getitem_def split: if_splits)

lemma fence_nonempty: "fence \<noteq> []" "fence_json \<noteq> []"
  by (simp_all add: fence_def fence_json_def str_def)

lemma between_eq:
  "opening \<noteq> [] \<Longrightarrow> find_first opening s = Some (pre, rest) \<Longrightarrow>
   between opening s = Inr (strip (piece0 fence (piece0 opening rest)))"
  by (simp add: between_def split_py_def split_nonempty_1 split_nonempty_0 fence_nonempty)


lemma marker_splitD:
  "marker_split m s pre post \<Longrightarrow> s = pre @ m @ post"
  "marker_split m s pre post \<Longrightarrow> i < length pre \<Longrightarrow> \<not> prefix m (drop i s)"
  unfolding marker_split_def by blast+

lemma no_marker_before:
  assumes "marker_split m s pre post" "m \<noteq> []"
  shows "find_first m pre = None"
proof -
  have "\<not> prefix m (drop i pre)" if "i \<le> length pre" for i
  proof
    assume p: "prefix m (drop i pre)"
    with \<open>m \<noteq> []\<close> have "drop i pre \<noteq> []" by auto
    then have "i < length pre" by simp
    moreover from assms(1) have "drop i s = drop i pre @ m @ post"
      using \<open>i < length pre\<close> by (simp add: marker_split_def)
    with p have "prefix m (drop i s)" by (simp add: prefix_prefix)
    ultimately show False using assms(1) marker_splitD(2) by blast
  qed
  then show ?thesis by (simp add: find_first_None_iff)
qed

lemma piece0_idem:
  assumes "m \<noteq> []"
  shows "piece0 m (piece0 m s) = piece0 m s"
proof (cases "find_first m s")
  case None
  then show ?thesis by (simp add: piece0_def)
next
  case (Some p)
  obtain a b where "p = (a, b)" by (cases p)
  with Some have "marker_split m s a b" by (simp add: find_first_Some_iff)
  with assms have "find_first m a = None" by (rule no_marker_before[rotated])
  with Some \<open>p = (a, b)\<close> show ?thesis by (simp add: piece0_def)
qed


lemma piece0_json_fence:
  assumes ms: "marker_split fence rest mid post"
    and q1: "\<not> prefix (str ''`json'') post"
    and q2: "\<not> prefix (str ''``json'') post"
  shows "piece0 fence (piece0 fence_json rest) = mid"
proof (cases "find_first fence_json rest")
  case None
  moreover from ms have "find_first fence rest = Some (mid, post)"
    by (simp add: find_first_Some_iff)
  ultimately show ?thesis by (simp add: piece0_def)
next
  case (Some p)
  obtain a r2 where p: "p = (a, r2)" by (cases p)
  with Some have mj: "marker_split fence_json rest a r2" by (simp add: find_first_Some_iff)
  from ms have rest1: "rest = mid @ fence @ post" by (rule marker_splitD)
  from mj have rest2: "rest = a @ fence_json @ r2" by (rule marker_splitD)
  have fj: "fence_json = fence @ str ''json''"
    by (simp add: fence_json_def fence_def str_def)
  have "drop (length a) rest = fence @ str ''json'' @ r2"
    by (simp add: rest2 fj)
  then have pf: "prefix fence (drop (length a) rest)" by simp
  have le: "length mid \<le> length a"
  proof (rule ccontr)
    assume "\<not> length mid \<le> length a"
    then have "length a < length mid" by simp
    with ms have "\<not> prefix fence (drop (length a) rest)" by (rule marker_splitD)
    with pf show False by simp
  qed
  have pa: "piece0 fence_json rest = a" using Some p by (simp add: piece0_def)
  have tk: "a = take (length a) (mid @ fence @ post)"
    using rest1 rest2 by (metis append_eq_conv_conj)
  consider (eq) "length a = length mid" | (one) "length a = length mid + 1"
    | (two) "length a = length mid + 2" | (ge) "length mid + 3 \<le> length a"
    using le by linarith
  then have "piece0 fence a = mid"
  proof cases
    case eq
    with tk have "a = mid" by simp
    moreover from ms have "find_first fence mid = None"
      by (rule no_marker_before) (simp add: fence_nonempty)
    ultimately show ?thesis by (simp add: piece0_def)
  next
    case one
    have "drop (length a) rest = drop 1 fence @ post"
      using one by (simp add: rest1 fence_def str_def)
    moreover have "drop (length a) rest = fence_json @ r2" by (simp add: rest2)
    ultimately have "post = str ''`json'' @ r2"
      by (simp add: fence_def fence_json_def str_def)
    with q1 show ?thesis by simp
  next
    case two
    have "drop (length a) rest = drop 2 fence @ post"
      using two by (simp add: rest1 fence_def str_def)
    moreover have "drop (length a) rest = fence_json @ r2" by (simp add: rest2)
    ultimately have "post = str ''``json'' @ r2"
      by (simp add: fence_def fence_json_def str_def)
    with q2 show ?thesis by simp
  next
    case ge
    have lf: "length fence = 3" by (simp add: fence_def str_def)
    define w where "w = take (length a - length mid - 3) post"
    from tk ge lf have a_eq: "a = mid @ fence @ w" by (simp add: w_def)
    have "\<not> prefix fence (drop i a)" if "i < length mid" for i
    proof
      assume pr: "prefix fence (drop i a)"
      from that le have "i \<le> length a" by simp
      then have "drop i rest = drop i a @ fence_json @ r2" by (simp add: rest2)
      with pr have "prefix fence (drop i rest)" by (simp add: prefix_prefix)
      moreover from ms that have "\<not> prefix fence (drop i rest)" by (rule marker_splitD)
      ultimately show False by simp
    qed
    with a_eq have "marker_split fence a mid w" by (simp add: marker_split_def)
    then have "find_first fence a = Some (mid, w)" by (simp add: find_first_Some_iff)
    then show ?thesis by (simp add: piece0_def)
  qed
  with pa show ?thesis by simp
qed

lemma contains_iff: "contains sub s \<longleftrightarrow> (\<exists>pre post. marker_split sub s pre post)"
  by (cases "find_first sub s") (auto simp: contains_def find_first_Some_iff [symmetric])

lemma fence_strip_total: "\<exists>c. fence_strip s = Inr c"
proof -
  have "\<exists>c. between m s = Inr c" if "m \<noteq> []" "contains m s" for m
  proof -
    from that(2) obtain pre rest where "find_first m s = Some (pre, rest)"
      by (cases "find_first m s") (auto simp: contains_def)
    with that(1) show ?thesis by (simp add: between_eq)
  qed
  then show ?thesis by (simp add: fence_strip_def fence_nonempty)
qed

lemma contains_fence_json_fence: "contains fence_json s \<Longrightarrow> contains fence s"
proof -
  assume "contains fence_json s"
  then obtain pre post where "marker_split fence_json s pre post"
    by (auto simp: contains_iff)
  then have "s = pre @ fence @ (str ''json'' @ post)"
    by (simp add: marker_split_def fence_json_def fence_def str_def)
  then have "prefix fence (drop (length pre) s)" by simp
  then have "find_first fence s \<noteq> None"
    by (metis find_first_None_iff append_eq_conv_conj \<open>s = pre @ fence @ (str ''json'' @ post)\<close> length_append le_add1 )
  then show ?thesis by (auto simp: contains_def)
qed

lemma candidate_total: "\<exists>c. candidate t = Inr c"
  by (simp add: candidate_def fence_strip_total)

subsection \<open>Validation and the generator\<close>

lemma validate_items_ints:
  "validate_items (validate_int x) loc i (map JInt bs) = Inr bs"
  by (induction bs arbitrary: i) (simp_all add: validate_int_def)

lemma validate_DailyWeather_ok:
  "json_DailyWeather j d \<Longrightarrow> validate_DailyWeather x loc j = Inr d"
  by (cases j)
    (simp_all add: json_DailyWeather_def validate_DailyWeather_def field_def
      validate_int_def validate_str_def)

lemma validate_items_days:
  "list_all2 json_DailyWeather ds ws \<Longrightarrow>
   validate_items (validate_DailyWeather x) loc i ds = Inr ws"
  by (induction ds ws arbitrary: i rule: list_all2_induct)
    (simp_all add: validate_DailyWeather_ok)

lemma new_StructuredWeather_ok:
  assumes "matches_schema j w"
  shows "new_StructuredWeather x j = Inr w"
proof (cases j)
  case (JObj kvs)
  with assms obtain ds where
    d: "map_of kvs (str ''destination'') = Some (JStr (destination w))"
    and f: "map_of kvs (str ''forecast'') = Some (JArr ds)"
    and fs: "list_all2 json_DailyWeather ds (forecast w)"
    and t: "map_of kvs (str ''travelAdvice'') = Some (JStr (travelAdvice w))"
    and b: "map_of kvs (str ''bestDays'') = Some (JArr (map JInt (bestDays w)))"
    by (auto simp: matches_schema_def split: option.splits json.splits)
  from fs have "validate_items (validate_DailyWeather x) [Field (str ''forecast'')] 0 ds = Inr (forecast w)"
    by (rule validate_items_days)
  with d f t b have "validate_StructuredWeather x kvs = Inr w"
    by (simp add: validate_StructuredWeather_def field_def validate_str_def validate_list_def
        validate_items_ints)
  with JObj show ?thesis by (simp add: new_StructuredWeather_def)
qed (use assms in \<open>simp_all add: matches_schema_def\<close>)

lemma json_DailyWeather_dump: "json_DailyWeather (dump_DailyWeather d) d"
  by (simp add: json_DailyWeather_def dump_DailyWeather_def str_def)

lemma matches_schema_dump: "matches_schema (model_dump w) w"
  by (simp add: matches_schema_def model_dump_def str_def list_all2_map1
      json_DailyWeather_dump list_all2_same)

lemma new_StructuredWeather_error_kind:
  "new_StructuredWeather x j = Inl e \<Longrightarrow> e = TypeError \<or> (\<exists>errs. e = ValidationError errs)"
  by (auto simp: new_StructuredWeather_def split: json.splits sum.splits)

lemma both_fails_left:
  "\<exists>es. a = Inl es \<and> v \<in> set es \<Longrightarrow> \<exists>es. both a b = Inl es \<and> v \<in> set es"
  by (cases b) auto

lemma both_fails_right:
  "\<exists>es. b = Inl es \<and> v \<in> set es \<Longrightarrow> \<exists>es. both a b = Inl es \<and> v \<in> set es"
  by (cases a) auto

lemma field_missing:
  "map_of kvs n = None \<Longrightarrow> \<exists>es. field kvs loc n f = Inl es \<and> (loc @ [Field n], missing) \<in> set es"
  by (simp add: field_def)

lemma missing_field_rejected:
  assumes "n \<in> set StructuredWeather_fields" and "map_of kvs n = None"
  shows "\<exists>errs. new_StructuredWeather x (JObj kvs) = Inl (ValidationError errs)
          \<and> ([Field n], missing) \<in> set errs"
proof -
  let ?v = "([Field n], missing)"
  from assms(1) consider "n = str ''destination''" | "n = str ''forecast''"
    | "n = str ''travelAdvice''" | "n = str ''bestDays''"
    by (auto simp: StructuredWeather_fields_def)
  then have "\<exists>es. both (field kvs [] (str ''destination'') validate_str)
           (both (field kvs [] (str ''forecast'') (validate_list (validate_DailyWeather x)))
           (both (field kvs [] (str ''travelAdvice'') validate_str)
                 (field kvs [] (str ''bestDays'') (validate_list (validate_int x))))) = Inl es
        \<and> ?v \<in> set es"
  proof cases
    case 1
    with assms(2) show ?thesis
      using field_missing [of kvs n "[]" validate_str]
      by (intro both_fails_left) simp
  next
    case 2
    with assms(2) show ?thesis
      using field_missing [of kvs n "[]" "validate_list (validate_DailyWeather x)"]
      by (intro both_fails_right both_fails_left) simp
  next
    case 3
    with assms(2) show ?thesis
      using field_missing [of kvs n "[]" validate_str]
      by (intro both_fails_right both_fails_left) simp
  next
    case 4
    with assms(2) show ?thesis
      using field_missing [of kvs n "[]" "validate_list (validate_int x)"]
      by (intro both_fails_right) simp
  qed
  then show ?thesis
    by (auto simp: new_StructuredWeather_def validate_StructuredWeather_def)
qed

lemma not_a_dict_rejected:
  "\<forall>kvs. j \<noteq> JObj kvs \<Longrightarrow> new_StructuredWeather x j = Inl TypeError"
  by (cases j) (simp_all add: new_StructuredWeather_def)

lemma both_Inl_left: "both (Inl e) b = Inl (e @ (case b of Inl e' \<Rightarrow> e' | Inr _ \<Rightarrow> []))"
  by (cases b) simp_all

lemma both_Inl_right: "both a (Inl e) = Inl ((case a of Inl e' \<Rightarrow> e' | Inr _ \<Rightarrow> []) @ e)"
  by (cases a) simp_all

lemma validate_items_fails:
  assumes "i < length vs" and "f (loc @ [Index (k + i)]) (vs ! i) = Inl es"
  shows "\<exists>es'. validate_items f loc k vs = Inl es' \<and> set es \<subseteq> set es'"
  using assms
proof (induction vs arbitrary: i k)
  case Nil
  then show ?case by simp
next
  case (Cons v vs)
  show ?case
  proof (cases i)
    case 0
    with Cons.prems have "f (loc @ [Index k]) v = Inl es" by simp
    then show ?thesis by (auto simp: both_Inl_left)
  next
    case (Suc j)
    with Cons.prems have "j < length vs" and "f (loc @ [Index (Suc k + j)]) (vs ! j) = Inl es"
      by simp_all
    with Cons.IH obtain es' where "validate_items f loc (Suc k) vs = Inl es'" and "set es \<subseteq> set es'"
      by blast
    then show ?thesis by (auto simp: both_Inl_right)
  qed
qed

lemma wrong_kind_str_rejected:
  assumes "map_of kvs (str ''destination'') = Some v" and "\<forall>s. v \<noteq> JStr s"
  shows "\<exists>errs. new_StructuredWeather x (JObj kvs) = Inl (ValidationError errs)
          \<and> ([Field (str ''destination'')], string_type) \<in> set errs"
proof -
  from assms have "field kvs [] (str ''destination'') validate_str
      = Inl [([Field (str ''destination'')], string_type)]"
    by (cases v) (simp_all add: field_def validate_str_def)
  then show ?thesis
    by (auto simp: new_StructuredWeather_def validate_StructuredWeather_def both_Inl_left)
qed

lemma wrong_kind_int_rejected:
  assumes "map_of kvs (str ''bestDays'') = Some (JArr vs)" and "i < length vs"
    and "vs ! i = JNull \<or> (\<exists>a. vs ! i = JArr a) \<or> (\<exists>a. vs ! i = JObj a)"
  shows "\<exists>errs. new_StructuredWeather x (JObj kvs) = Inl (ValidationError errs)
          \<and> ([Field (str ''bestDays''), Index i], int_type) \<in> set errs"
proof -
  from assms(3) have "validate_int x ([Field (str ''bestDays'')] @ [Index (0 + i)]) (vs ! i)
      = Inl [([Field (str ''bestDays''), Index i], int_type)]"
    by (auto simp: validate_int_def)
  with assms(2) obtain es where
    "validate_items (validate_int x) [Field (str ''bestDays'')] 0 vs = Inl es"
    and "([Field (str ''bestDays''), Index i], int_type) \<in> set es"
    using validate_items_fails [of i vs "validate_int x" "[Field (str ''bestDays'')]" 0]
    by auto
  with assms(1) have "\<exists>es'. field kvs [] (str ''bestDays'') (validate_list (validate_int x)) = Inl es'
      \<and> ([Field (str ''bestDays''), Index i], int_type) \<in> set es'"
    by (simp add: field_def validate_list_def)
  then have "\<exists>errs. validate_StructuredWeather x kvs = Inl errs
      \<and> ([Field (str ''bestDays''), Index i], int_type) \<in> set errs"
    unfolding validate_StructuredWeather_def
    by (auto simp: both_Inl_right split: sum.splits)
  then show ?thesis by (auto simp: new_StructuredWeather_def)
qed

lemma both_left_subset:
  "a = Inl e \<Longrightarrow> \<exists>es. both a b = Inl es \<and> set e \<subseteq> set es"
  by (cases b) auto

lemma both_right_subset:
  "b = Inl e \<Longrightarrow> \<exists>es. both a b = Inl es \<and> set e \<subseteq> set es"
  by (cases a) auto

lemma forecast_element_rejected:
  assumes "map_of kvs (str ''forecast'') = Some (JArr ds)" and "i < length ds"
    and "validate_DailyWeather x [Field (str ''forecast''), Index i] (ds ! i) = Inl es"
  shows "\<exists>errs. new_StructuredWeather x (JObj kvs) = Inl (ValidationError errs)
          \<and> set es \<subseteq> set errs"
proof -
  let ?A = "field kvs [] (str ''destination'') validate_str"
  let ?B = "field kvs [] (str ''forecast'') (validate_list (validate_DailyWeather x))"
  let ?CD = "both (field kvs [] (str ''travelAdvice'') validate_str)
                 (field kvs [] (str ''bestDays'') (validate_list (validate_int x)))"
  from assms(3) have "validate_DailyWeather x ([Field (str ''forecast'')] @ [Index (0 + i)]) (ds ! i)
      = Inl es"
    by simp
  with assms(2) obtain e1 where
    "validate_items (validate_DailyWeather x) [Field (str ''forecast'')] 0 ds = Inl e1"
    and s1: "set es \<subseteq> set e1"
    using validate_items_fails by blast
  with assms(1) have "?B = Inl e1"
    by (simp add: field_def validate_list_def)
  then obtain e2 where b2: "both ?B ?CD = Inl e2" and s2: "set e1 \<subseteq> set e2"
    using both_left_subset by blast
  then obtain e3 where b3: "both ?A (both ?B ?CD) = Inl e3" and s3: "set e2 \<subseteq> set e3"
    using both_right_subset by blast
  from b3 have "new_StructuredWeather x (JObj kvs) = Inl (ValidationError e3)"
    by (simp add: new_StructuredWeather_def validate_StructuredWeather_def)
  with s1 s2 s3 show ?thesis by blast
qed

subsection \<open>The examples\<close>

lemma strip_tokyo: "strip tokyo_text = tokyo_text"
  by (simp add: strip_def tokyo_text_def str_def isspace_def)

lemma cand_plain_tokyo: "candidate tokyo_text = Inr tokyo_text"
  by (simp add: candidate_def fence_strip_def contains_def strip_def tokyo_text_def str_def
      isspace_def fence_def fence_json_def)

lemma cand_fenced_tokyo:
  "candidate (str ''Here you go:\<newline>```json\<newline>'' @ tokyo_text @ str ''\<newline>```'') = Inr tokyo_text"
  by (simp add: candidate_def fence_strip_def contains_def between_def strip_def str_def
      isspace_def fence_def fence_json_def split_py_def getitem_def split_nonempty.simps
      tokyo_text_def)

lemma ms_tokyo: "matches_schema tokyo_json tokyo"
  by (simp add: matches_schema_def tokyo_json_def tokyo_pairs_def tokyo_def tokyo_day_def
      json_DailyWeather_def str_def)

lemma fence_overlapping_marker:
  "candidate (str ''```json X ````json Y'') = Inr (str ''X `'')"
  by (simp add: candidate_def fence_strip_def contains_def between_def strip_def str_def
      isspace_def fence_def fence_json_def split_py_def getitem_def split_nonempty.simps)

lemma response_text_first_part_text:
  assumes "content ev = Some c" and "parts c = Some (p # ps)" and "truthy (part_text p)"
  shows "response_text ev =
     join [10] (map (\<lambda>q. the (part_text q)) (filter (\<lambda>q. truthy (part_text q)) (p # ps)))"
  using assms by (simp add: response_text_def)

lemma response_text_no_text:
  assumes "content ev = Some c" and "parts c = Some ps"
    and "\<forall>p \<in> set ps. \<not> truthy (part_text p)"
  shows "response_text ev = []"
  using assms by (cases ps) (simp_all add: response_text_def)

lemma stream_events_updates:
  assumes "\<forall>ev \<in> set pre. \<not> is_final_response ev"
  shows "stream_events x (pre @ evs) =
     (case stream_events x evs of
        (its, r) \<Rightarrow> (replicate (length pre) (Updates get_processing_message) @ its, r))"
  using assms
  by (induction pre) (auto simp: stream_step_def split: prod.splits)

lemma execute_loop_skips:
  assumes "\<forall>ev \<in> set pre. \<not> is_final_response ev"
  shows "execute_loop x final_content (pre @ evs) = execute_loop x final_content evs"
  using assms by (induction pre) (simp_all add: stream_step_def)

lemma field_same:
  "map_of kvs' n = map_of kvs n \<Longrightarrow> field kvs' loc n f = field kvs loc n f"
  by (simp add: field_def)

lemma field_same_on:
  "\<forall>n \<in> set ns. map_of kvs' n = map_of kvs n \<Longrightarrow> n \<in> set ns \<Longrightarrow>
   field kvs' loc n f = field kvs loc n f"
  by (simp add: field_def)

lemma validate_DailyWeather_same:
  assumes "\<forall>n \<in> set DailyWeather_fields. map_of kvs' n = map_of kvs n"
  shows "validate_DailyWeather x loc (JObj kvs') = validate_DailyWeather x loc (JObj kvs)"
  by (simp add: validate_DailyWeather_def field_same_on [OF assms] DailyWeather_fields_def)

lemma validate_StructuredWeather_same:
  assumes "\<forall>n \<in> set StructuredWeather_fields. map_of kvs' n = map_of kvs n"
  shows "validate_StructuredWeather x kvs' = validate_StructuredWeather x kvs"
  by (simp add: validate_StructuredWeather_def field_same_on [OF assms] StructuredWeather_fields_def)

subsection \<open>Printing and the \<open>try\<close> statement\<close>

lemma utf8_encodable_append [simp]:
  "utf8_encodable (a @ b) \<longleftrightarrow> utf8_encodable a \<and> utf8_encodable b"
  by (simp add: utf8_encodable_def)

lemma utf8_encodable_success: "utf8_encodable success_message"
  by (simp add: utf8_encodable_def success_message_def str_def)

lemma utf8_encodable_content:
  "utf8_encodable (content_message c) \<longleftrightarrow> utf8_encodable c"
  by (simp add: content_message_def) (simp add: utf8_encodable_def str_def)

lemma utf8_encodable_parsing:
  "utf8_encodable (parsing_error_message x e) \<longleftrightarrow> utf8_encodable (exc_str x e)"
  by (simp add: parsing_error_message_def) (simp add: utf8_encodable_def str_def)

lemma utf8_encodable_validation:
  "utf8_encodable (validation_error_message x e) \<longleftrightarrow> utf8_encodable (exc_str x e)"
  by (simp add: validation_error_message_def) (simp add: utf8_encodable_def str_def)

lemma parse_and_validate_success:
  assumes "loads x c = Inr j" and "new_StructuredWeather x j = Inr w"
  shows "parse_and_validate x c = Inr (dumps x (Some 2) (model_dump w))"
  using assms
  by (simp add: parse_and_validate_def try_body_def print_py_def utf8_encodable_success)

lemma fallback_malformed:
  assumes "utf8_encodable (exc_str x (JSONDecodeError msg))" and "utf8_encodable c"
  shows "fallback x c (JSONDecodeError msg) = Inr (dumps x None (malformed_envelope c))"
  using assms
  by (simp add: fallback_def print_py_def utf8_encodable_parsing utf8_encodable_content)

lemma fallback_malformed_unprintable:
  assumes "utf8_encodable (exc_str x (JSONDecodeError msg))" and "\<not> utf8_encodable c"
  shows "fallback x c (JSONDecodeError msg) = Inl UnicodeEncodeError"
  using assms
  by (simp add: fallback_def print_py_def utf8_encodable_parsing utf8_encodable_content)

lemma fallback_other:
  assumes "\<forall>msg. e \<noteq> JSONDecodeError msg" and "utf8_encodable (exc_str x e)"
  shows "fallback x c e = Inr (dumps x None (validation_envelope (exc_str x e)))"
  using assms
  by (cases e) (simp_all add: fallback_def print_py_def utf8_encodable_validation)

lemma parse_and_validate_decode_error:
  assumes "loads x c = Inl e"
  shows "parse_and_validate x c = fallback x c e"
  using assms by (simp add: parse_and_validate_def try_body_def)

lemma parse_and_validate_rejected:
  assumes "loads x c = Inr j" and "new_StructuredWeather x j = Inl e"
  shows "parse_and_validate x c = fallback x c e"
  using assms by (simp add: parse_and_validate_def try_body_def)

lemma stream_step_final:
  assumes "is_final_response ev" and "candidate (response_text ev) = Inr c"
  shows "stream_step x ev =
     (case parse_and_validate x c of Inl e \<Rightarrow> Inl e | Inr r \<Rightarrow> Inr (Complete r))"
  using assms by (simp add: stream_step_def final_response_def)

lemma strip_no_whitespace:
  assumes "\<forall>c \<in> set s. \<not> isspace c"
  shows "strip s = s"
proof -
  have d: "dropWhile isspace t = t" if "\<forall>c \<in> set t. \<not> isspace c" for t
    using that by (cases t) simp_all
  from assms have "dropWhile isspace s = s" by (rule d)
  moreover from assms have "dropWhile isspace (rev s) = rev s" by (intro d) simp
  ultimately show ?thesis by (simp add: strip_def)
qed

lemma find_first_absent:
  assumes "sep \<noteq> []" and "hd sep \<notin> set s"
  shows "find_first sep s = None"
proof -
  have "\<not> prefix sep (drop i s)" for i
  proof
    assume "prefix sep (drop i s)"
    then obtain r where "drop i s = sep @ r" by (auto simp: prefix_def)
    with assms(1) have "hd sep \<in> set (drop i s)" by (cases sep) simp_all
    then have "hd sep \<in> set s" by (rule in_set_dropD)
    with assms(2) show False by simp
  qed
  then show ?thesis by (simp add: find_first_None_iff)
qed

lemma candidate_plain:
  assumes "\<forall>c \<in> set s. \<not> isspace c \<and> c \<noteq> 96"
  shows "candidate s = Inr s"
proof -
  from assms have "strip s = s" by (intro strip_no_whitespace) simp
  moreover have "hd fence \<notin> set s" "hd fence_json \<notin> set s"
    using assms by (auto simp: fence_def fence_json_def str_def)
  then have "find_first fence s = None" "find_first fence_json s = None"
    by (simp_all add: find_first_absent fence_nonempty)
  ultimately show ?thesis
    by (simp add: candidate_def fence_strip_def contains_def)
qed

lemma deep_text_nonempty: "deep_text \<noteq> []"
  by (simp add: deep_text_def)

lemma set_deep_text: "set deep_text = {91}"
  by (simp add: deep_text_def)

lemma candidate_deep_text: "candidate deep_text = Inr deep_text"
  by (rule candidate_plain) (simp add: set_deep_text isspace_def)

lemma response_text_one_part:
  "s \<noteq> [] \<Longrightarrow> response_text (text_event f [Some s]) = s"
  by (simp add: response_text_def text_event_def truthy_def)

lemma show_json_validation_envelope:
  "show_json (validation_envelope m) = str ''{\"error\": \"Validation failed: '' @ m @ str ''\"}''"
  by (simp add: validation_envelope_def str_def)

lemma show_json_malformed_envelope:
  "show_json (malformed_envelope c) =
     str ''{\"error\": \"Failed to generate structured weather forecast\", \"raw_content\": \"''
     @ take 200 c @ str ''\"}''"
  by (simp add: malformed_envelope_def str_def)

lemma unprintable_candidate_escapes:
  "candidate (response_text (text_event True [Some surrogate_text])) = Inr surrogate_text
   \<and> loads (table_ext [] []) surrogate_text = Inl (JSONDecodeError surrogate_text)
   \<and> stream_step (table_ext [] []) (text_event True [Some surrogate_text]) = Inl UnicodeEncodeError"
proof -
  let ?ev = "text_event True [Some surrogate_text]"
  let ?x = "table_ext [] []"
  have rt: "response_text ?ev = surrogate_text"
    by (rule response_text_one_part) (simp add: surrogate_text_def)
  have "candidate surrogate_text = Inr surrogate_text"
    by (rule candidate_plain) (simp add: surrogate_text_def isspace_def)
  with rt have cand: "candidate (response_text ?ev) = Inr surrogate_text" by simp
  have fin: "is_final_response ?ev" by (simp add: text_event_def)
  have ld: "loads ?x surrogate_text = Inl (JSONDecodeError surrogate_text)"
    by (simp add: table_ext_def)
  have "fallback ?x surrogate_text (JSONDecodeError surrogate_text) = Inl UnicodeEncodeError"
    by (rule fallback_malformed_unprintable)
      (simp_all add: table_ext_def utf8_encodable_def str_def surrogate_text_def)
  with ld have "parse_and_validate ?x surrogate_text = Inl UnicodeEncodeError"
    by (simp add: parse_and_validate_decode_error)
  with fin cand ld show ?thesis by (simp add: stream_step_final)
qed

subsection \<open>Rejection by the schema\<close>

lemma isl_both: "isl (both a b) \<longleftrightarrow> isl a \<or> isl b"
  by (cases a; cases b) simp_all

lemma isl_validate_str: "isl (validate_str loc v) \<longleftrightarrow> str_rejected v"
  by (cases v) (simp_all add: validate_str_def str_rejected_def)

lemma isl_validate_int: "isl (validate_int x loc v) \<longleftrightarrow> int_rejected x v"
  by (cases v) (simp_all add: validate_int_def int_rejected_def split: sum.splits)

lemma isl_field:
  assumes "\<And>loc v. isl (f loc v) \<longleftrightarrow> bad v"
  shows "isl (field kvs loc n f) \<longleftrightarrow> field_rejected kvs n bad"
  using assms by (simp add: field_def field_rejected_def split: option.splits)

lemma isl_validate_items:
  assumes "\<And>loc v. isl (f loc v) \<longleftrightarrow> bad v"
  shows "isl (validate_items f loc i vs) \<longleftrightarrow> list_ex bad vs"
proof (induction vs arbitrary: i)
  case Nil
  show ?case by simp
next
  case (Cons v vs)
  have "isl (validate_items f loc i (v # vs))
      \<longleftrightarrow> isl (both (f (loc @ [Index i]) v) (validate_items f loc (Suc i) vs))"
    by (simp split: sum.splits prod.splits)
  also have "\<dots> \<longleftrightarrow> bad v \<or> list_ex bad vs"
    by (simp add: isl_both assms Cons.IH)
  finally show ?case by simp
qed

lemma isl_validate_list:
  assumes "\<And>loc v. isl (f loc v) \<longleftrightarrow> bad v"
  shows "isl (validate_list f loc v) \<longleftrightarrow> list_rejected bad v"
  by (cases v) (simp_all add: validate_list_def list_rejected_def isl_validate_items [OF assms])

lemma isl_validate_DailyWeather:
  "isl (validate_DailyWeather x loc v) \<longleftrightarrow> DailyWeather_rejected x v"
proof (cases v)
  case (JObj kvs)
  let ?b = "both (field kvs loc (str ''day'') (validate_int x))
                (both (field kvs loc (str ''date'') validate_str)
                (both (field kvs loc (str ''condition'') validate_str)
                (both (field kvs loc (str ''highTemp'') (validate_int x))
                (both (field kvs loc (str ''lowTemp'') (validate_int x))
                (both (field kvs loc (str ''precipitation'') (validate_int x))
                (both (field kvs loc (str ''humidity'') (validate_int x))
                (both (field kvs loc (str ''windSpeed'') (validate_int x))
                      (field kvs loc (str ''description'') validate_str))))))))"
  have "isl (validate_DailyWeather x loc (JObj kvs)) \<longleftrightarrow> isl ?b"
    by (simp add: validate_DailyWeather_def split: sum.splits prod.splits)
  also have "\<dots> \<longleftrightarrow> DailyWeather_rejected x (JObj kvs)"
    by (simp add: isl_both isl_field [of "validate_int x", OF isl_validate_int]
        isl_field [of validate_str, OF isl_validate_str] DailyWeather_rejected_def)
  finally show ?thesis using JObj by simp
qed (simp_all add: validate_DailyWeather_def DailyWeather_rejected_def)

lemma isl_new_StructuredWeather:
  "isl (new_StructuredWeather x j) \<longleftrightarrow> violates_schema x j"
proof (cases j)
  case (JObj kvs)
  let ?b = "both (field kvs [] (str ''destination'') validate_str)
           (both (field kvs [] (str ''forecast'') (validate_list (validate_DailyWeather x)))
           (both (field kvs [] (str ''travelAdvice'') validate_str)
                 (field kvs [] (str ''bestDays'') (validate_list (validate_int x)))))"
  have "isl (new_StructuredWeather x (JObj kvs)) \<longleftrightarrow> isl ?b"
    by (simp add: new_StructuredWeather_def validate_StructuredWeather_def
        split: sum.splits prod.splits)
  also have "\<dots> \<longleftrightarrow> violates_schema x (JObj kvs)"
    by (simp add: isl_both isl_field [of validate_str, OF isl_validate_str]
        isl_field [of "validate_list (validate_DailyWeather x)",
          OF isl_validate_list, OF isl_validate_DailyWeather]
        isl_field [of "validate_list (validate_int x)",
          OF isl_validate_list, OF isl_validate_int]
        violates_schema_def)
  finally show ?thesis using JObj by simp
qed (simp_all add: new_StructuredWeather_def violates_schema_def)

subsection \<open>Runs of the generator and of \<open>execute\<close>\<close>

lemma stream_updates_then_complete:
  assumes "run_async x query session_id = pre @ [fin]"
    and "\<forall>ev \<in> set pre. \<not> is_final_response ev"
    and "is_final_response fin"
    and "final_response x fin = Inr payload"
  shows "stream x query session_id =
          (replicate (length pre) (Updates get_processing_message) @ [Complete payload], None)"
proof -
  from assms(3,4) have one: "stream_events x [fin] = ([Complete payload], None)"
    by (simp add: stream_step_def)
  have "stream x query session_id = stream_events x (pre @ [fin])"
    by (simp only: stream_def assms(1))
  also have "\<dots> = (case stream_events x [fin] of
        (its, r) \<Rightarrow> (replicate (length pre) (Updates get_processing_message) @ its, r))"
    using assms(2) by (rule stream_events_updates)
  also have "\<dots> = (replicate (length pre) (Updates get_processing_message) @ [Complete payload], None)"
    by (simp only: one prod.case)
  finally show ?thesis .
qed

lemma stream_updates_then_raises:
  assumes "run_async x query session_id = pre @ [fin]"
    and "\<forall>ev \<in> set pre. \<not> is_final_response ev"
    and "is_final_response fin"
    and "final_response x fin = Inl e"
  shows "stream x query session_id =
          (replicate (length pre) (Updates get_processing_message), Some e)"
proof -
  from assms(3,4) have one: "stream_events x [fin] = ([], Some e)"
    by (simp add: stream_step_def)
  have "stream x query session_id = stream_events x (pre @ [fin])"
    by (simp only: stream_def assms(1))
  also have "\<dots> = (case stream_events x [fin] of
        (its, r) \<Rightarrow> (replicate (length pre) (Updates get_processing_message) @ its, r))"
    using assms(2) by (rule stream_events_updates)
  also have "\<dots> = (replicate (length pre) (Updates get_processing_message), Some e)"
    by (simp only: one prod.case append_Nil2)
  finally show ?thesis .
qed

lemma execute_forwards_complete:
  assumes "run_async x (get_user_input context) (session_id_of context) = pre @ fin # rest"
    and "\<forall>ev \<in> set pre. \<not> is_final_response ev"
    and "is_final_response fin"
    and "final_response x fin = Inr payload"
  shows "execute_loop x [] (pre @ fin # rest) = Inr (payload, rest)
      \<and> execute x context event_queue = Inr (event_queue @ [new_agent_text_message payload])"
proof -
  from assms(3,4) have st: "stream_step x fin = Inr (Complete payload)"
    by (simp add: stream_step_def)
  have "execute_loop x [] (pre @ fin # rest) = execute_loop x [] (fin # rest)"
    using assms(2) by (rule execute_loop_skips)
  also have "\<dots> = Inr (payload, rest)" by (simp add: st)
  finally have lp: "execute_loop x [] (pre @ fin # rest) = Inr (payload, rest)" .
  then have "execute x context event_queue = Inr (event_queue @ [new_agent_text_message payload])"
    by (simp add: execute_def assms(1))
  with lp show ?thesis by blast
qed

lemma execute_raises:
  assumes "run_async x (get_user_input context) (session_id_of context) = pre @ fin # rest"
    and "\<forall>ev \<in> set pre. \<not> is_final_response ev"
    and "is_final_response fin"
    and "final_response x fin = Inl e"
  shows "execute x context event_queue = Inl e"
proof -
  from assms(3,4) have st: "stream_step x fin = Inl e"
    by (simp add: stream_step_def)
  have "execute_loop x [] (pre @ fin # rest) = execute_loop x [] (fin # rest)"
    using assms(2) by (rule execute_loop_skips)
  also have "\<dots> = Inl e" by (simp add: st)
  finally show ?thesis by (simp add: execute_def assms(1))
qed

lemma execute_without_final:
  assumes "\<forall>ev \<in> set (run_async x (get_user_input context) (session_id_of context)).
             \<not> is_final_response ev"
  shows "execute x context event_queue = Inr (event_queue @ [new_agent_text_message []])"
proof -
  have "execute_loop x [] (run_async x (get_user_input context) (session_id_of context) @ [])
      = execute_loop x [] []"
    using assms by (rule execute_loop_skips)
  then show ?thesis by (simp add: execute_def)
qed

lemma final_response_surrogate:
  "final_response (table_ext [] evs) (text_event True [Some surrogate_text]) = Inl UnicodeEncodeError"
proof -
  let ?ev = "text_event True [Some surrogate_text]"
  let ?x = "table_ext [] evs"
  have rt: "response_text ?ev = surrogate_text"
    by (rule response_text_one_part) (simp add: surrogate_text_def)
  have "candidate surrogate_text = Inr surrogate_text"
    by (rule candidate_plain) (simp add: surrogate_text_def isspace_def)
  with rt have cand: "candidate (response_text ?ev) = Inr surrogate_text" by simp
  have ld: "loads ?x surrogate_text = Inl (JSONDecodeError surrogate_text)"
    by (simp add: table_ext_def)
  have "fallback ?x surrogate_text (JSONDecodeError surrogate_text) = Inl UnicodeEncodeError"
    by (rule fallback_malformed_unprintable)
      (simp_all add: table_ext_def utf8_encodable_def str_def surrogate_text_def)
  with ld have "parse_and_validate ?x surrogate_text = Inl UnicodeEncodeError"
    by (simp add: parse_and_validate_decode_error)
  with cand show ?thesis by (simp add: final_response_def)
qed

section \<open>The claims\<close>

text \<open>
  C1. A final event whose text, after trimming and fence stripping, decodes to JSON that
  matches the schema with the field values \<open>w\<close>: validation returns \<open>w\<close> itself, the
  generator yields one complete item whose content is the serialization of
  \<open>model_dump w\<close>, and that dictionary matches the schema with the same field values
  (destination, every forecast element with its nine fields, travelAdvice, bestDays).
\<close>

theorem valid_json_round_trip:
  assumes "is_final_response ev"
    and "candidate (response_text ev) = Inr c"
    and "loads x c = Inr j"
    and "matches_schema j w"
  shows "new_StructuredWeather x j = Inr w
    \<and> stream_step x ev = Inr (Complete (dumps x (Some 2) (model_dump w)))
    \<and> matches_schema (model_dump w) w"
proof -
  from assms(4) have ok: "new_StructuredWeather x j = Inr w" by (rule new_StructuredWeather_ok)
  with assms(3) have "parse_and_validate x c = Inr (dumps x (Some 2) (model_dump w))"
    by (rule parse_and_validate_success)
  with assms(1,2) ok show ?thesis
    by (simp add: stream_step_final matches_schema_dump)
qed

theorem valid_json_round_trip_witness:
  "is_final_response
     (text_event True [Some (str ''Here you go:\<newline>```json\<newline>'' @ tokyo_text @ str ''\<newline>```'')])
   \<and> candidate (response_text
        (text_event True [Some (str ''Here you go:\<newline>```json\<newline>'' @ tokyo_text @ str ''\<newline>```'')]))
       = Inr tokyo_text
   \<and> loads (table_ext [(tokyo_text, tokyo_json)] []) tokyo_text = Inr tokyo_json
   \<and> matches_schema tokyo_json tokyo
   \<and> new_StructuredWeather (table_ext [(tokyo_text, tokyo_json)] []) tokyo_json = Inr tokyo
   \<and> stream_step (table_ext [(tokyo_text, tokyo_json)] [])
        (text_event True [Some (str ''Here you go:\<newline>```json\<newline>'' @ tokyo_text @ str ''\<newline>```'')])
       = Inr (Complete (dumps (table_ext [(tokyo_text, tokyo_json)] []) (Some 2) (model_dump tokyo)))
   \<and> matches_schema (model_dump tokyo) tokyo"
proof -
  let ?t = "str ''Here you go:\<newline>```json\<newline>'' @ tokyo_text @ str ''\<newline>```''"
  let ?ev = "text_event True [Some ?t]"
  let ?x = "table_ext [(tokyo_text, tokyo_json)] []"
  have fin: "is_final_response ?ev" by (simp add: text_event_def)
  have "response_text ?ev = ?t"
    by (simp add: response_text_def text_event_def truthy_def str_def)
  with cand_fenced_tokyo have cand: "candidate (response_text ?ev) = Inr tokyo_text" by simp
  have ld: "loads ?x tokyo_text = Inr tokyo_json" by (simp add: table_ext_def)
  from valid_json_round_trip [OF fin cand ld ms_tokyo] fin cand ld ms_tokyo
  show ?thesis by blast
qed

text \<open>
  C2 as the specification states it, at the text \<open>```json\<newline>1\<newline>```\<close>: the substring
  between the end of the first JSON-tagged marker and the next marker is
  \<open>\<newline>1\<newline>\<close>, but the candidate is \<open>1\<close>: the code trims the interior.
\<close>

theorem fence_interior_not_verbatim:
  "marker_split fence_json (strip (str ''```json\<newline>1\<newline>```'')) [] (str ''\<newline>1\<newline>```'')
   \<and> marker_split fence (str ''\<newline>1\<newline>```'') (str ''\<newline>1\<newline>'') []
   \<and> candidate (str ''```json\<newline>1\<newline>```'') = Inr (str ''1'')
   \<and> candidate (str ''```json\<newline>1\<newline>```'') \<noteq> Inr (str ''\<newline>1\<newline>'')"
proof -
  let ?t = "str ''```json\<newline>1\<newline>```''"
  have s: "strip ?t = ?t" by (simp add: strip_def str_def isspace_def)
  have a: "marker_split fence_json (strip ?t) [] (str ''\<newline>1\<newline>```'')"
    unfolding s by (simp add: find_first_Some_iff [symmetric] fence_json_def str_def)
  have b: "marker_split fence (str ''\<newline>1\<newline>```'') (str ''\<newline>1\<newline>'') []"
    by (simp add: find_first_Some_iff [symmetric] fence_def str_def)
  have c: "candidate ?t = Inr (str ''1'')"
    by (simp add: candidate_def fence_strip_def contains_def between_def strip_def str_def
        isspace_def fence_def fence_json_def split_py_def getitem_def split_nonempty.simps)
  have d: "str ''1'' \<noteq> str ''\<newline>1\<newline>''" by (simp add: str_def)
  from a b c d show ?thesis by simp
qed

text \<open>
  C2, amended. Fence stripping in priority order, on the trimmed text:
  \<^item> if it contains the JSON-tagged marker, the candidate is the trimmed substring between
    the end of the first such marker and the next plain marker, provided the backticks
    of that closing marker do not run on into a further JSON-tagged marker (the text
    after it starts with neither \<open>`json\<close> nor \<open>``json\<close>);
  \<^item> else if it contains the plain marker, the candidate is the trimmed substring between
    the first and the second plain marker;
  \<^item> else the candidate is the trimmed text unchanged.
  The text before the opening marker and after the closing one plays no part.
\<close>

theorem fence_strip_priority:
  "(marker_split fence_json (strip t) pre rest \<and> marker_split fence rest mid post
      \<and> \<not> prefix (str ''`json'') post \<and> \<not> prefix (str ''``json'') post
      \<longrightarrow> candidate t = Inr (strip mid))
   \<and> (\<not> contains fence_json (strip t) \<and> marker_split fence (strip t) pre rest
      \<and> marker_split fence rest mid post
      \<longrightarrow> candidate t = Inr (strip mid))
   \<and> (\<not> contains fence (strip t) \<longrightarrow> candidate t = Inr (strip t))"
proof (intro conjI impI)
  assume h: "marker_split fence_json (strip t) pre rest \<and> marker_split fence rest mid post
      \<and> \<not> prefix (str ''`json'') post \<and> \<not> prefix (str ''``json'') post"
  then have f: "find_first fence_json (strip t) = Some (pre, rest)"
    by (simp add: find_first_Some_iff)
  then have "contains fence_json (strip t)" by (simp add: contains_def)
  moreover from f have "between fence_json (strip t) = Inr (strip (piece0 fence (piece0 fence_json rest)))"
    by (simp add: between_eq fence_nonempty)
  moreover from h have "piece0 fence (piece0 fence_json rest) = mid"
    by (intro piece0_json_fence [of rest mid post]) simp_all
  ultimately show "candidate t = Inr (strip mid)"
    by (simp add: candidate_def fence_strip_def)
next
  assume h: "\<not> contains fence_json (strip t) \<and> marker_split fence (strip t) pre rest
      \<and> marker_split fence rest mid post"
  then have f: "find_first fence (strip t) = Some (pre, rest)"
    and g: "find_first fence rest = Some (mid, post)"
    by (simp_all add: find_first_Some_iff)
  from f have "contains fence (strip t)" by (simp add: contains_def)
  moreover from f have "between fence (strip t) = Inr (strip (piece0 fence (piece0 fence rest)))"
    by (simp add: between_eq fence_nonempty)
  moreover from g have "piece0 fence (piece0 fence rest) = mid"
    by (simp add: piece0_idem fence_nonempty) (simp add: piece0_def)
  ultimately show "candidate t = Inr (strip mid)"
    using h by (simp add: candidate_def fence_strip_def)
next
  assume "\<not> contains fence (strip t)"
  moreover from this have "\<not> contains fence_json (strip t)"
    using contains_fence_json_fence by blast
  ultimately show "candidate t = Inr (strip t)"
    by (simp add: candidate_def fence_strip_def)
qed

theorem fence_strip_priority_witness:
  "marker_split fence_json (strip (str ''Here:\<newline>```json\<newline>1\<newline>``` bye''))
       (str ''Here:\<newline>'') (str ''\<newline>1\<newline>``` bye'')
   \<and> marker_split fence (str ''\<newline>1\<newline>``` bye'') (str ''\<newline>1\<newline>'') (str '' bye'')
   \<and> \<not> prefix (str ''`json'') (str '' bye'') \<and> \<not> prefix (str ''``json'') (str '' bye'')
   \<and> candidate (str ''Here:\<newline>```json\<newline>1\<newline>``` bye'') = Inr (str ''1'')
   \<and> \<not> contains fence_json (strip (str ''a ``` b ``` c''))
   \<and> marker_split fence (strip (str ''a ``` b ``` c'')) (str ''a '') (str '' b ``` c'')
   \<and> marker_split fence (str '' b ``` c'') (str '' b '') (str '' c'')
   \<and> candidate (str ''a ``` b ``` c'') = Inr (str ''b'')
   \<and> \<not> contains fence (strip (str ''  {} ''))
   \<and> candidate (str ''  {} '') = Inr (str ''{}'')"
proof -
  let ?t1 = "str ''Here:\<newline>```json\<newline>1\<newline>``` bye''"
  let ?t2 = "str ''a ``` b ``` c''"
  let ?t3 = "str ''  {} ''"
  have s1: "strip ?t1 = ?t1" and s2: "strip ?t2 = ?t2" and s3: "strip ?t3 = str ''{}''"
    by (simp_all add: strip_def str_def isspace_def)
  have a1: "marker_split fence_json (strip ?t1) (str ''Here:\<newline>'') (str ''\<newline>1\<newline>``` bye'')"
    unfolding s1 by (simp add: find_first_Some_iff [symmetric] fence_json_def str_def)
  have a2: "marker_split fence (str ''\<newline>1\<newline>``` bye'') (str ''\<newline>1\<newline>'') (str '' bye'')"
    by (simp add: find_first_Some_iff [symmetric] fence_def str_def)
  have a3: "\<not> prefix (str ''`json'') (str '' bye'')" "\<not> prefix (str ''``json'') (str '' bye'')"
    by (simp_all add: str_def)
  have m1: "strip (str ''\<newline>1\<newline>'') = str ''1''"
    by (simp add: strip_def str_def isspace_def)
  have b1: "\<not> contains fence_json (strip ?t2)"
    unfolding s2 by (simp add: contains_def fence_json_def str_def)
  have b2: "marker_split fence (strip ?t2) (str ''a '') (str '' b ``` c'')"
    unfolding s2 by (simp add: find_first_Some_iff [symmetric] fence_def str_def)
  have b3: "marker_split fence (str '' b ``` c'') (str '' b '') (str '' c'')"
    by (simp add: find_first_Some_iff [symmetric] fence_def str_def)
  have m2: "strip (str '' b '') = str ''b''"
    by (simp add: strip_def str_def isspace_def)
  have c1: "\<not> contains fence (strip ?t3)"
    unfolding s3 by (simp add: contains_def fence_def str_def)
  from fence_strip_priority [of ?t1 "str ''Here:\<newline>''" "str ''\<newline>1\<newline>``` bye''" "str ''\<newline>1\<newline>''" "str '' bye''"]
    a1 a2 a3 have r1: "candidate ?t1 = Inr (strip (str ''\<newline>1\<newline>''))" by blast
  from fence_strip_priority [of ?t2 "str ''a ''" "str '' b ``` c''" "str '' b ''" "str '' c''"]
    b1 b2 b3 have r2: "candidate ?t2 = Inr (strip (str '' b ''))" by blast
  from fence_strip_priority [of ?t3] c1 have r3: "candidate ?t3 = Inr (strip ?t3)" by blast
  from a1 a2 a3 b1 b2 b3 c1 r1 r2 r3 m1 m2 s3 show ?thesis by simp
qed

text \<open>
  C3 as the specification states it, at the text of 100000 opening brackets. The text is
  not parseable JSON; the decoder leaves it with \<open>RecursionError\<close>, which is not a
  \<open>JSONDecodeError\<close>, so the second \<open>except\<close> clause handles it and the generator yields
  the validation-failure envelope, not the malformed-JSON one.
\<close>

theorem other_decoder_exception_not_malformed:
  "is_final_response (text_event True [Some deep_text])
   \<and> candidate (response_text (text_event True [Some deep_text])) = Inr deep_text
   \<and> loads deep_ext deep_text = Inl RecursionError
   \<and> stream_step deep_ext (text_event True [Some deep_text]) =
       Inr (Complete (str ''{\"error\": \"Validation failed: maximum recursion depth exceeded\"}''))
   \<and> stream_step deep_ext (text_event True [Some deep_text]) \<noteq>
       Inr (Complete (dumps deep_ext None (malformed_envelope deep_text)))"
proof -
  let ?ev = "text_event True [Some deep_text]"
  have fin: "is_final_response ?ev" by (simp add: text_event_def)
  have rt: "response_text ?ev = deep_text"
    by (rule response_text_one_part) (rule deep_text_nonempty)
  have cand: "candidate (response_text ?ev) = Inr deep_text"
    by (simp add: rt candidate_deep_text)
  have ld: "loads deep_ext deep_text = Inl RecursionError"
    by (simp add: deep_ext_def)
  have es: "exc_str deep_ext RecursionError = str ''maximum recursion depth exceeded''"
    and du: "dumps deep_ext = (\<lambda>indent j. show_json j)"
    by (simp_all add: deep_ext_def table_ext_def)
  have enc: "utf8_encodable (exc_str deep_ext RecursionError)"
    unfolding es by (simp add: utf8_encodable_def str_def)
  have "fallback deep_ext deep_text RecursionError
      = Inr (dumps deep_ext None (validation_envelope (exc_str deep_ext RecursionError)))"
    using enc by (intro fallback_other) simp_all
  also have "\<dots> = Inr (str ''{\"error\": \"Validation failed: maximum recursion depth exceeded\"}'')"
    by (simp add: du es show_json_validation_envelope) (simp add: str_def)
  finally have pv: "parse_and_validate deep_ext deep_text
      = Inr (str ''{\"error\": \"Validation failed: maximum recursion depth exceeded\"}'')"
    using ld by (simp add: parse_and_validate_decode_error)
  have st: "stream_step deep_ext ?ev =
       Inr (Complete (str ''{\"error\": \"Validation failed: maximum recursion depth exceeded\"}''))"
    using fin cand pv by (simp add: stream_step_final)
  have ne: "str ''{\"error\": \"Validation failed: maximum recursion depth exceeded\"}''
      \<noteq> dumps deep_ext None (malformed_envelope deep_text)"
    by (simp add: du show_json_malformed_envelope) (simp add: str_def)
  from fin cand ld st ne show ?thesis by simp
qed

text \<open>
  C3, amended. Fence stripping never raises, and for a final event whose candidate text
  the decoder rejects with \<open>JSONDecodeError\<close> the generator yields the complete item
  holding the malformed-JSON envelope: the fixed error message, and as \<open>raw_content\<close>
  the first 200 code points of the candidate, which is a prefix of it, at most 200 long,
  and the whole candidate when that has at most 200 code points. This holds when the
  two texts printed on lines 210 and 211, \<open>str(e)\<close> and the candidate, hold no surrogate
  code point.
\<close>

theorem json_decode_error_envelope:
  "\<exists>c. candidate (response_text ev) = Inr c
     \<and> (is_final_response ev \<and> loads x c = Inl (JSONDecodeError msg)
          \<and> utf8_encodable (exc_str x (JSONDecodeError msg)) \<and> utf8_encodable c \<longrightarrow>
          stream_step x ev =
            Inr (Complete (dumps x None
              (JObj [(str ''error'', JStr (str ''Failed to generate structured weather forecast'')),
                     (str ''raw_content'', JStr (take 200 c))])))
          \<and> prefix (take 200 c) c
          \<and> length (take 200 c) \<le> 200
          \<and> (length c \<le> 200 \<longrightarrow> take 200 c = c))"
proof -
  obtain c where c: "candidate (response_text ev) = Inr c"
    using candidate_total by blast
  have "stream_step x ev = Inr (Complete (dumps x None (malformed_envelope c)))"
    if "is_final_response ev" and "loads x c = Inl (JSONDecodeError msg)"
      and "utf8_encodable (exc_str x (JSONDecodeError msg))" and "utf8_encodable c"
  proof -
    from that(2) have "parse_and_validate x c = fallback x c (JSONDecodeError msg)"
      by (rule parse_and_validate_decode_error)
    also from that(3,4) have "\<dots> = Inr (dumps x None (malformed_envelope c))"
      by (rule fallback_malformed)
    finally show ?thesis using that(1) c by (simp add: stream_step_final)
  qed
  moreover have "prefix (take 200 c) c" by (rule take_is_prefix)
  ultimately show ?thesis using c by (auto simp: malformed_envelope_def)
qed

theorem json_decode_error_envelope_witness:
  "candidate (response_text (text_event True [Some (str ''not json at all'')]))
     = Inr (str ''not json at all'')
   \<and> is_final_response (text_event True [Some (str ''not json at all'')])
   \<and> loads (table_ext [] []) (str ''not json at all'')
       = Inl (JSONDecodeError (str ''not json at all''))
   \<and> utf8_encodable (exc_str (table_ext [] []) (JSONDecodeError (str ''not json at all'')))
   \<and> utf8_encodable (str ''not json at all'')
   \<and> stream_step (table_ext [] []) (text_event True [Some (str ''not json at all'')]) =
       Inr (Complete (dumps (table_ext [] []) None
         (JObj [(str ''error'', JStr (str ''Failed to generate structured weather forecast'')),
                (str ''raw_content'', JStr (str ''not json at all''))])))
   \<and> dumps (table_ext [] []) None
         (JObj [(str ''error'', JStr (str ''Failed to generate structured weather forecast'')),
                (str ''raw_content'', JStr (str ''not json at all''))])
       = str ''{\"error\": \"Failed to generate structured weather forecast\", \"raw_content\": \"not json at all\"}''"
proof -
  let ?ev = "text_event True [Some (str ''not json at all'')]"
  let ?x = "table_ext [] []"
  let ?c = "str ''not json at all''"
  have rt: "response_text ?ev = ?c"
    by (rule response_text_one_part) (simp add: str_def)
  have "candidate ?c = Inr ?c"
    by (simp add: candidate_def fence_strip_def contains_def strip_def str_def
        isspace_def fence_def fence_json_def)
  with rt have cand: "candidate (response_text ?ev) = Inr ?c" by simp
  have fin: "is_final_response ?ev" by (simp add: text_event_def)
  have ld: "loads ?x ?c = Inl (JSONDecodeError ?c)" by (simp add: table_ext_def)
  have e1: "utf8_encodable (exc_str ?x (JSONDecodeError ?c))"
    by (simp add: table_ext_def utf8_encodable_def str_def)
  have e2: "utf8_encodable ?c" by (simp add: utf8_encodable_def str_def)
  have tk: "take 200 ?c = ?c" by (simp add: str_def)
  from json_decode_error_envelope [of ?ev ?x ?c] cand fin ld e1 e2
  have st: "stream_step ?x ?ev =
       Inr (Complete (dumps ?x None
         (JObj [(str ''error'', JStr (str ''Failed to generate structured weather forecast'')),
                (str ''raw_content'', JStr (take 200 ?c))])))"
    by auto
  have sh: "dumps ?x None
         (JObj [(str ''error'', JStr (str ''Failed to generate structured weather forecast'')),
                (str ''raw_content'', JStr ?c)])
       = str ''{\"error\": \"Failed to generate structured weather forecast\", \"raw_content\": \"not json at all\"}''"
    by (simp add: table_ext_def str_def)
  from cand fin ld e1 e2 st tk sh show ?thesis by simp
qed

text \<open>
  C4 as the specification states it, at the Tokyo object with the boolean \<open>true\<close> as
  \<open>highTemp\<close>: a field of the wrong primitive kind, yet validation converts the boolean to
  1 and succeeds, and the generator yields the success payload, which has the four
  declared keys and no \<open>error\<close> key.
\<close>

theorem boolean_for_int_field_accepted:
  "is_final_response (text_event True [Some bool_temp_text])
   \<and> candidate (response_text (text_event True [Some bool_temp_text])) = Inr bool_temp_text
   \<and> loads (table_ext [(bool_temp_text, bool_temp_json)] []) bool_temp_text = Inr bool_temp_json
   \<and> new_StructuredWeather (table_ext [(bool_temp_text, bool_temp_json)] []) bool_temp_json
       = Inr bool_temp_weather
   \<and> map highTemp (forecast bool_temp_weather) = [1]
   \<and> stream_step (table_ext [(bool_temp_text, bool_temp_json)] [])
        (text_event True [Some bool_temp_text])
       = Inr (Complete (dumps (table_ext [(bool_temp_text, bool_temp_json)] []) (Some 2)
           (model_dump bool_temp_weather)))
   \<and> keys (model_dump bool_temp_weather) = StructuredWeather_fields
   \<and> str ''error'' \<notin> set (keys (model_dump bool_temp_weather))"
proof -
  let ?ev = "text_event True [Some bool_temp_text]"
  let ?x = "table_ext [(bool_temp_text, bool_temp_json)] []"
  have fin: "is_final_response ?ev" by (simp add: text_event_def)
  have rt: "response_text ?ev = bool_temp_text"
    by (rule response_text_one_part) (simp add: bool_temp_text_def str_def)
  have "candidate bool_temp_text = Inr bool_temp_text"
    by (simp add: candidate_def fence_strip_def contains_def strip_def bool_temp_text_def
        str_def isspace_def fence_def fence_json_def)
  with rt have cand: "candidate (response_text ?ev) = Inr bool_temp_text" by simp
  have ld: "loads ?x bool_temp_text = Inr bool_temp_json" by (simp add: table_ext_def)
  have ok: "new_StructuredWeather ?x bool_temp_json = Inr bool_temp_weather"
    by (simp add: new_StructuredWeather_def validate_StructuredWeather_def bool_temp_json_def
        bool_temp_weather_def tokyo_def tokyo_day_def field_def validate_str_def
        validate_list_def validate_int_def validate_DailyWeather_def table_ext_def str_def)
  have ht: "map highTemp (forecast bool_temp_weather) = [1]"
    by (simp add: bool_temp_weather_def)
  from ld ok have "parse_and_validate ?x bool_temp_text
      = Inr (dumps ?x (Some 2) (model_dump bool_temp_weather))"
    by (rule parse_and_validate_success)
  with fin cand have st: "stream_step ?x ?ev
      = Inr (Complete (dumps ?x (Some 2) (model_dump bool_temp_weather)))"
    by (simp add: stream_step_final)
  have ks: "keys (model_dump bool_temp_weather) = StructuredWeather_fields"
    by (simp add: keys_def model_dump_def StructuredWeather_fields_def)
  have ne: "str ''error'' \<notin> set (keys (model_dump bool_temp_weather))"
    unfolding ks by (simp add: StructuredWeather_fields_def str_def)
  from fin cand ld ok ht st ks ne show ?thesis by simp
qed

text \<open>
  C4, amended. A final event whose candidate text decodes to a value that fails schema
  validation (it is not an object, or a required field is missing, or a field holds a
  value of the wrong kind that validation does not convert, or a forecast element fails
  as a \<open>DailyWeather\<close>): \<open>StructuredWeather\<close> raises an exception \<open>e\<close>, and the generator
  yields the complete item holding the validation-failure envelope, whose message is
  \<open>Validation failed: \<close> followed by \<open>str(e)\<close>. This holds when \<open>str(e)\<close>, printed on
  line 218, holds no surrogate code point.
\<close>

theorem rejected_value_envelope:
  assumes "is_final_response ev"
    and "candidate (response_text ev) = Inr c"
    and "loads x c = Inr j"
    and "violates_schema x j"
  shows "\<exists>e. new_StructuredWeather x j = Inl e
    \<and> (utf8_encodable (exc_str x e) \<longrightarrow>
         stream_step x ev =
           Inr (Complete (dumps x None
             (JObj [(str ''error'', JStr (str ''Validation failed: '' @ exc_str x e))]))))"
proof -
  from assms(4) have "isl (new_StructuredWeather x j)"
    by (simp add: isl_new_StructuredWeather)
  then obtain e where e: "new_StructuredWeather x j = Inl e"
    by (cases "new_StructuredWeather x j") simp_all
  then have "e = TypeError \<or> (\<exists>errs. e = ValidationError errs)"
    by (rule new_StructuredWeather_error_kind)
  then have nj: "\<forall>msg. e \<noteq> JSONDecodeError msg" by auto
  have "stream_step x ev = Inr (Complete (dumps x None (validation_envelope (exc_str x e))))"
    if "utf8_encodable (exc_str x e)"
  proof -
    from assms(3) e have "parse_and_validate x c = fallback x c e"
      by (rule parse_and_validate_rejected)
    also from nj that have "\<dots> = Inr (dumps x None (validation_envelope (exc_str x e)))"
      by (rule fallback_other)
    finally show ?thesis using assms(1,2) by (simp add: stream_step_final)
  qed
  with e show ?thesis by (auto simp: validation_envelope_def)
qed

theorem rejected_value_envelope_witness:
  "is_final_response (text_event True [Some no_forecast_text])
   \<and> candidate (response_text (text_event True [Some no_forecast_text])) = Inr no_forecast_text
   \<and> loads (table_ext [(no_forecast_text, no_forecast_json)] []) no_forecast_text
       = Inr no_forecast_json
   \<and> violates_schema (table_ext [(no_forecast_text, no_forecast_json)] []) no_forecast_json
   \<and> new_StructuredWeather (table_ext [(no_forecast_text, no_forecast_json)] []) no_forecast_json
       = Inl (ValidationError [([Field (str ''forecast'')], missing)])
   \<and> utf8_encodable (exc_str (table_ext [(no_forecast_text, no_forecast_json)] [])
        (ValidationError [([Field (str ''forecast'')], missing)]))
   \<and> stream_step (table_ext [(no_forecast_text, no_forecast_json)] [])
        (text_event True [Some no_forecast_text])
       = Inr (Complete (dumps (table_ext [(no_forecast_text, no_forecast_json)] []) None
           (JObj [(str ''error'',
                   JStr (str ''Validation failed: '' @
                         exc_str (table_ext [(no_forecast_text, no_forecast_json)] [])
                           (ValidationError [([Field (str ''forecast'')], missing)])))])))
   \<and> dumps (table_ext [(no_forecast_text, no_forecast_json)] []) None
           (JObj [(str ''error'',
                   JStr (str ''Validation failed: '' @
                         exc_str (table_ext [(no_forecast_text, no_forecast_json)] [])
                           (ValidationError [([Field (str ''forecast'')], missing)])))])
       = str ''{\"error\": \"Validation failed: validation error\"}''"
proof -
  let ?ev = "text_event True [Some no_forecast_text]"
  let ?x = "table_ext [(no_forecast_text, no_forecast_json)] []"
  let ?e = "ValidationError [([Field (str ''forecast'')], missing)]"
  have fin: "is_final_response ?ev" by (simp add: text_event_def)
  have rt: "response_text ?ev = no_forecast_text"
    by (rule response_text_one_part) (simp add: no_forecast_text_def str_def)
  have "candidate no_forecast_text = Inr no_forecast_text"
    by (simp add: candidate_def fence_strip_def contains_def strip_def no_forecast_text_def
        str_def isspace_def fence_def fence_json_def)
  with rt have cand: "candidate (response_text ?ev) = Inr no_forecast_text" by simp
  have ld: "loads ?x no_forecast_text = Inr no_forecast_json" by (simp add: table_ext_def)
  have vs: "violates_schema ?x no_forecast_json"
    by (simp add: violates_schema_def no_forecast_json_def field_rejected_def str_def)
  have bad: "new_StructuredWeather ?x no_forecast_json = Inl ?e"
    by (simp add: new_StructuredWeather_def validate_StructuredWeather_def no_forecast_json_def
        field_def validate_str_def validate_list_def validate_int_def str_def)
  have enc: "utf8_encodable (exc_str ?x ?e)"
    by (simp add: table_ext_def utf8_encodable_def str_def)
  from rejected_value_envelope [OF fin cand ld vs] bad enc
  have st: "stream_step ?x ?ev
       = Inr (Complete (dumps ?x None
           (JObj [(str ''error'', JStr (str ''Validation failed: '' @ exc_str ?x ?e))])))"
    by auto
  have sh: "dumps ?x None
           (JObj [(str ''error'', JStr (str ''Validation failed: '' @ exc_str ?x ?e))])
       = str ''{\"error\": \"Validation failed: validation error\"}''"
    by (simp add: table_ext_def str_def)
  from fin cand ld vs bad enc st sh show ?thesis by blast
qed

text \<open>
  C5. The guard of line 185 looks at the first part only: for a final event whose first
  part has no text and whose second part has the text \<open>{}\<close>, the raw response text is
  empty, whereas the texts of the parts joined by newlines are \<open>{}\<close>.
\<close>

theorem response_text_first_part_guard:
  "response_text (text_event True [None, Some (str ''{}'')]) = []
   \<and> join [10] (map the (filter truthy [None, Some (str ''{}'')])) = str ''{}''"
  by (simp add: response_text_def text_event_def truthy_def str_def)

text \<open>
  C6. The runner produces one non-final event and then a final event whose text is the
  lone surrogate \<open>U+D83D\<close>, which the decoder rejects with \<open>JSONDecodeError\<close>. The
  generator yields one incomplete item and then \<open>print\<close> on line 211 raises
  \<open>UnicodeEncodeError\<close> inside the \<open>except\<close> clause: the generator ends with that
  exception and yields no complete item.
\<close>

theorem stream_raises_on_unprintable_text:
  "stream (table_ext [] [text_event False [], text_event True [Some surrogate_text]])
     (str ''Weather in Tokyo?'') (str ''s1'')
   = ([Updates get_processing_message], Some UnicodeEncodeError)"
proof -
  let ?fin = "text_event True [Some surrogate_text]"
  let ?x = "table_ext [] [text_event False [], ?fin]"
  have r: "run_async ?x (str ''Weather in Tokyo?'') (str ''s1'') = [text_event False []] @ [?fin]"
    by (simp add: table_ext_def)
  have np: "\<forall>ev \<in> set [text_event False []]. \<not> is_final_response ev"
    by (simp add: text_event_def)
  have fin: "is_final_response ?fin" by (simp add: text_event_def)
  from stream_updates_then_raises [OF r np fin final_response_surrogate]
  show ?thesis by simp
qed

text \<open>
  C7. The runner produces a single final event whose text is the lone surrogate
  \<open>U+D83D\<close>. The generator raises \<open>UnicodeEncodeError\<close> from line 211, \<open>execute\<close> has no
  handler, and it ends with that exception before \<open>enqueue_event\<close>: no message is
  enqueued.
\<close>

theorem execute_raises_on_unprintable_text:
  "execute (table_ext [] [text_event True [Some surrogate_text]])
     \<lparr>get_user_input = str ''Weather in Tokyo?'', context_id = None\<rparr> []
   = Inl UnicodeEncodeError"
proof -
  let ?fin = "text_event True [Some surrogate_text]"
  let ?x = "table_ext [] [?fin]"
  let ?c = "\<lparr>get_user_input = str ''Weather in Tokyo?'', context_id = None\<rparr>"
  have r: "run_async ?x (get_user_input ?c) (session_id_of ?c) = [] @ ?fin # []"
    by (simp add: table_ext_def)
  have np: "\<forall>ev \<in> set ([] :: event list). \<not> is_final_response ev" by simp
  have fin: "is_final_response ?fin" by (simp add: text_event_def)
  from execute_raises [OF r np fin final_response_surrogate]
  show ?thesis .
qed

text \<open>
  C8. For every request context and event queue, \<open>cancel\<close> fails with the exception
  \<open>Exception('cancel not supported')\<close>: it never completes normally, whatever the
  arguments, and returns no queue.
\<close>

theorem cancel_always_raises:
  "cancel context event_queue = Inl (PyException (str ''cancel not supported''))
   \<and> (\<forall>q. cancel context event_queue \<noteq> Inr q)"
  by (simp add: cancel_def)

text \<open>
  C9. The input \<open>unchecked_input\<close> has every required field with a value of the right
  kind; its \<open>bestDays\<close> is \<open>[7, 7]\<close> while the only forecast day is 1, its precipitation
  is 250 and its humidity -5. Validation succeeds and returns these values unchanged.
\<close>

theorem schema_has_no_range_or_reference_checks:
  "new_StructuredWeather x unchecked_input = Inr unchecked_weather
   \<and> bestDays unchecked_weather = [7, 7]
   \<and> map day (forecast unchecked_weather) = [1]
   \<and> map precipitation (forecast unchecked_weather) = [250]
   \<and> map humidity (forecast unchecked_weather) = [- 5]"
  by (simp add: new_StructuredWeather_def validate_StructuredWeather_def unchecked_input_def
      unchecked_day_def unchecked_weather_def tokyo_day_def field_def validate_str_def
      validate_list_def validate_int_def validate_DailyWeather_def str_def)

text \<open>
  C10. If a dictionary validates, every dictionary that agrees with it on the four
  declared keys, whatever other keys it has, validates to the same value; the try block
  then returns the serialization of \<open>model_dump\<close>, whose keys are the four declared ones
  and whose forecast elements have the nine declared ones.
\<close>

theorem extra_fields_ignored:
  assumes "\<forall>n \<in> set StructuredWeather_fields. map_of kvs' n = map_of kvs n"
    and "new_StructuredWeather x (JObj kvs) = Inr w"
  shows "new_StructuredWeather x (JObj kvs') = Inr w
    \<and> (loads x c = Inr (JObj kvs') \<longrightarrow>
         parse_and_validate x c = Inr (dumps x (Some 2) (model_dump w)))
    \<and> keys (model_dump w) = StructuredWeather_fields
    \<and> keys (dump_DailyWeather d) = DailyWeather_fields"
proof -
  from assms(1) have "validate_StructuredWeather x kvs' = validate_StructuredWeather x kvs"
    by (rule validate_StructuredWeather_same)
  with assms(2) have ok: "new_StructuredWeather x (JObj kvs') = Inr w"
    by (simp add: new_StructuredWeather_def)
  then have "loads x c = Inr (JObj kvs') \<longrightarrow>
      parse_and_validate x c = Inr (dumps x (Some 2) (model_dump w))"
    by (simp add: parse_and_validate_success)
  moreover have "keys (model_dump w) = StructuredWeather_fields"
    by (simp add: keys_def model_dump_def StructuredWeather_fields_def)
  moreover have "keys (dump_DailyWeather d) = DailyWeather_fields"
    by (simp add: keys_def dump_DailyWeather_def DailyWeather_fields_def)
  ultimately show ?thesis using ok by blast
qed

theorem extra_fields_ignored_witness:
  "map_of tokyo_extra_pairs (str ''destination'') = map_of tokyo_pairs (str ''destination'')
   \<and> map_of tokyo_extra_pairs (str ''forecast'') = map_of tokyo_pairs (str ''forecast'')
   \<and> map_of tokyo_extra_pairs (str ''travelAdvice'') = map_of tokyo_pairs (str ''travelAdvice'')
   \<and> map_of tokyo_extra_pairs (str ''bestDays'') = map_of tokyo_pairs (str ''bestDays'')
   \<and> new_StructuredWeather (table_ext [(tokyo_extra_text, JObj tokyo_extra_pairs)] []) (JObj tokyo_pairs)
       = Inr tokyo
   \<and> loads (table_ext [(tokyo_extra_text, JObj tokyo_extra_pairs)] []) tokyo_extra_text
       = Inr (JObj tokyo_extra_pairs)
   \<and> new_StructuredWeather (table_ext [(tokyo_extra_text, JObj tokyo_extra_pairs)] [])
        (JObj tokyo_extra_pairs) = Inr tokyo
   \<and> parse_and_validate (table_ext [(tokyo_extra_text, JObj tokyo_extra_pairs)] []) tokyo_extra_text
       = Inr (dumps (table_ext [(tokyo_extra_text, JObj tokyo_extra_pairs)] []) (Some 2)
                (model_dump tokyo))
   \<and> keys (model_dump tokyo) = StructuredWeather_fields
   \<and> str ''timezone'' \<notin> set (keys (model_dump tokyo))
   \<and> str ''source'' \<notin> set (keys (model_dump tokyo))"
proof -
  let ?x = "table_ext [(tokyo_extra_text, JObj tokyo_extra_pairs)] []"
  have same: "\<forall>n \<in> set StructuredWeather_fields. map_of tokyo_extra_pairs n = map_of tokyo_pairs n"
    by (simp add: StructuredWeather_fields_def tokyo_extra_pairs_def tokyo_pairs_def str_def)
  have ok: "new_StructuredWeather ?x (JObj tokyo_pairs) = Inr tokyo"
    using new_StructuredWeather_ok [OF ms_tokyo] by (simp add: tokyo_json_def)
  have ld: "loads ?x tokyo_extra_text = Inr (JObj tokyo_extra_pairs)"
    by (simp add: table_ext_def)
  have nk: "str ''timezone'' \<notin> set StructuredWeather_fields"
    "str ''source'' \<notin> set StructuredWeather_fields"
    by (simp_all add: StructuredWeather_fields_def str_def)
  from extra_fields_ignored [OF same ok, of tokyo_extra_text] ld
  have "new_StructuredWeather ?x (JObj tokyo_extra_pairs) = Inr tokyo
    \<and> parse_and_validate ?x tokyo_extra_text = Inr (dumps ?x (Some 2) (model_dump tokyo))
    \<and> keys (model_dump tokyo) = StructuredWeather_fields"
    by blast
  with same ok ld nk show ?thesis by (simp add: StructuredWeather_fields_def)
qed

end
